theory Spec2Isabelle
  imports Main
begin

section \<open>Data shredders of pretix (\<^verbatim>\<open>pretix/base/shredder.py\<close>)\<close>

text \<open>
  A shallow embedding of the eligibility gate \<^verbatim>\<open>shred_constraints\<close>, the redaction
  primitive \<^verbatim>\<open>shred_log_fields\<close> and the four built-in shredders. Python exceptions are
  values of the type \<open>error\<close>; a function that may raise returns \<open>error + 'a\<close>.
\<close>

datatype error = TypeError | AttributeError | KeyError | IndexError | JSONDecodeError

subsection \<open>Events and the eligibility gate\<close>

text \<open>
  Points in time are counted in microseconds, the resolution of Python's \<^verbatim>\<open>datetime\<close>.
  An unset date is \<open>None\<close>. The evaluation time \<^verbatim>\<open>now()\<close> is a parameter.
\<close>

record event =
  e_id :: nat
  date_from :: "int option"
  date_to :: "int option"
  live :: bool

definition timedelta_days :: "int \<Rightarrow> int" where
  "timedelta_days n = n * 86400 * 1000000"

text \<open>Python's \<^verbatim>\<open>a or b\<close> on two optional dates: a \<^verbatim>\<open>datetime\<close> is always truthy,
  \<^verbatim>\<open>None\<close> is falsy.\<close>

definition py_or :: "int option \<Rightarrow> int option \<Rightarrow> int option" where
  "py_or a b = (case a of Some x \<Rightarrow> Some x | None \<Rightarrow> b)"

definition msg_over_60_days :: string where
  "msg_over_60_days = ''Your event needs to be over for at least 60 days to use this feature.''"

definition msg_shop_offline :: string where
  "msg_shop_offline = ''Your ticket shop needs to be offline to use this feature.''"

text \<open>Comparing \<^verbatim>\<open>None\<close> with a \<^verbatim>\<open>datetime\<close> raises \<^verbatim>\<open>TypeError\<close>.\<close>

definition shred_constraints :: "int \<Rightarrow> event \<Rightarrow> error + string option" where
  "shred_constraints now ev =
     (case py_or (date_to ev) (date_from ev) of
        None \<Rightarrow> Inl TypeError
      | Some t \<Rightarrow>
          if t > now - timedelta_days 60 then Inr (Some msg_over_60_days)
          else if live ev then Inr (Some msg_shop_offline)
          else Inr None)"

subsection \<open>Log entry payloads\<close>

text \<open>
  A payload is the value that \<^verbatim>\<open>json.loads\<close> returns: \<^verbatim>\<open>None\<close>, a \<^verbatim>\<open>bool\<close>, a number,
  a \<^verbatim>\<open>str\<close>, a \<^verbatim>\<open>list\<close> or a \<^verbatim>\<open>dict\<close> with \<^verbatim>\<open>str\<close> keys. A \<^verbatim>\<open>dict\<close> keeps the order
  in which its keys were inserted, so it is an association list. Numbers are integers.
  Strings are lists of bytes; the redaction marker U+2588 is written as its UTF-8 bytes.
\<close>

datatype json =
    JNull
  | JBool bool
  | JNum int
  | JStr string
  | JList "json list"
  | JObj "(string \<times> json) list"

definition marker :: json where
  "marker = JStr [CHR 0xE2, CHR 0x96, CHR 0x88]"

definition bind :: "error + 'a \<Rightarrow> ('a \<Rightarrow> error + 'b) \<Rightarrow> error + 'b" where
  "bind m f = (case m of Inl e \<Rightarrow> Inl e | Inr x \<Rightarrow> f x)"

text \<open>Running a step over a list, left to right, stopping at the first exception.\<close>

fun mapM :: "('a \<Rightarrow> error + 'b) \<Rightarrow> 'a list \<Rightarrow> error + 'b list" where
  "mapM f [] = Inr []"
| "mapM f (x # xs) = bind (f x) (\<lambda>y. bind (mapM f xs) (\<lambda>ys. Inr (y # ys)))"

fun foldM :: "('a \<Rightarrow> 's \<Rightarrow> error + 's) \<Rightarrow> 'a list \<Rightarrow> 's \<Rightarrow> error + 's" where
  "foldM f [] s = Inr s"
| "foldM f (x # xs) s = bind (f x s) (foldM f xs)"

text \<open>\<^verbatim>\<open>d[k] = v\<close> on a \<^verbatim>\<open>dict\<close>: an existing key keeps its place, a new key goes last.\<close>

fun dict_set :: "(string \<times> json) list \<Rightarrow> string \<Rightarrow> json \<Rightarrow> (string \<times> json) list" where
  "dict_set [] k v = [(k, v)]"
| "dict_set ((k', v') # kvs) k v =
     (if k' = k then (k, v) # kvs else (k', v') # dict_set kvs k v)"

fun starts_with :: "string \<Rightarrow> string \<Rightarrow> bool" where
  "starts_with s [] = True"
| "starts_with [] (p # ps) = False"
| "starts_with (c # cs) (p # ps) = (c = p \<and> starts_with cs ps)"

text \<open>\<^verbatim>\<open>p in s\<close> on two strings: \<open>p\<close> occurs in \<open>s\<close>.\<close>

fun py_substring :: "string \<Rightarrow> string \<Rightarrow> bool" where
  "py_substring p [] = (p = [])"
| "py_substring p (c # cs) = (starts_with (c # cs) p \<or> py_substring p cs)"

text \<open>\<^verbatim>\<open>k in v\<close> for a string \<open>k\<close>: key membership in a \<^verbatim>\<open>dict\<close>, element membership in a
  \<^verbatim>\<open>list\<close>, substring test on a \<^verbatim>\<open>str\<close>; anything else is not iterable.\<close>

fun py_in :: "string \<Rightarrow> json \<Rightarrow> error + bool" where
  "py_in k (JObj kvs) = Inr (k \<in> set (map fst kvs))"
| "py_in k (JList xs) = Inr (JStr k \<in> set xs)"
| "py_in k (JStr s) = Inr (py_substring k s)"
| "py_in k JNull = Inl TypeError"
| "py_in k (JBool b) = Inl TypeError"
| "py_in k (JNum n) = Inl TypeError"

text \<open>\<^verbatim>\<open>v[k]\<close> for a string \<open>k\<close>: only a \<^verbatim>\<open>dict\<close> can be indexed by a string.\<close>

fun py_getitem :: "json \<Rightarrow> string \<Rightarrow> error + json" where
  "py_getitem (JObj kvs) k = (case map_of kvs k of None \<Rightarrow> Inl KeyError | Some v \<Rightarrow> Inr v)"
| "py_getitem JNull k = Inl TypeError"
| "py_getitem (JBool b) k = Inl TypeError"
| "py_getitem (JNum n) k = Inl TypeError"
| "py_getitem (JStr s) k = Inl TypeError"
| "py_getitem (JList xs) k = Inl TypeError"

text \<open>\<^verbatim>\<open>v[k] = x\<close> for a string \<open>k\<close>.\<close>

fun py_setitem :: "json \<Rightarrow> string \<Rightarrow> json \<Rightarrow> error + json" where
  "py_setitem (JObj kvs) k x = Inr (JObj (dict_set kvs k x))"
| "py_setitem JNull k x = Inl TypeError"
| "py_setitem (JBool b) k x = Inl TypeError"
| "py_setitem (JNum n) k x = Inl TypeError"
| "py_setitem (JStr s) k x = Inl TypeError"
| "py_setitem (JList xs) k x = Inl TypeError"

text \<open>A list index: an \<^verbatim>\<open>int\<close> (a \<^verbatim>\<open>bool\<close> is one), counted from the end when negative.\<close>

fun list_index :: "json list \<Rightarrow> json \<Rightarrow> error + nat" where
  "list_index ys (JNum n) =
     (let len = int (length ys); j = (if n < 0 then n + len else n)
      in if 0 \<le> j \<and> j < len then Inr (nat j) else Inl IndexError)"
| "list_index ys (JBool b) =
     (let j = (if b then 1 else 0) in if j < length ys then Inr j else Inl IndexError)"
| "list_index ys JNull = Inl TypeError"
| "list_index ys (JStr s) = Inl TypeError"
| "list_index ys (JList xs) = Inl TypeError"
| "list_index ys (JObj kvs) = Inl TypeError"

text \<open>Truth value testing.\<close>

fun truthy :: "json \<Rightarrow> bool" where
  "truthy JNull = False"
| "truthy (JBool b) = b"
| "truthy (JNum n) = (n \<noteq> 0)"
| "truthy (JStr s) = (s \<noteq> [])"
| "truthy (JList xs) = (xs \<noteq> [])"
| "truthy (JObj kvs) = (kvs \<noteq> [])"

subsection \<open>Log entries and the redaction primitive\<close>

text \<open>
  The column \<^verbatim>\<open>data\<close> holds JSON text. It is represented by the value the text parses
  to, and by \<open>None\<close> when the text is empty: \<^verbatim>\<open>json.dumps\<close> followed by \<^verbatim>\<open>json.loads\<close>
  gives the value back.
\<close>

record log_entry =
  le_event :: nat
  le_action_type :: string
  le_data :: "json option"
  le_shredded :: bool

text \<open>
  Modelled from the spec: the property \<^verbatim>\<open>LogEntry.parsed_data\<close> (class \<^verbatim>\<open>LogEntry\<close> is
  not part of \<^verbatim>\<open>shredder.py\<close>) gives the entry's payload as a parsed structured value; text that does
  not parse, such as the empty text, is a failure of that entry's redaction.
\<close>

definition parsed_data :: "log_entry \<Rightarrow> error + json" where
  "parsed_data le = (case le_data le of None \<Rightarrow> Inl JSONDecodeError | Some d \<Rightarrow> Inr d)"

text \<open>\<^verbatim>\<open>le.data = json.dumps(d); le.shredded = True; le.save(update_fields=[...])\<close>\<close>

definition save_shredded :: "log_entry \<Rightarrow> json \<Rightarrow> log_entry" where
  "save_shredded le d = le\<lparr>le_data := Some d, le_shredded := True\<rparr>"

text \<open>The whitelist loop runs over \<^verbatim>\<open>d.items()\<close>, which only a \<^verbatim>\<open>dict\<close> has.\<close>

definition mask_whitelist :: "string list \<Rightarrow> json \<Rightarrow> error + json" where
  "mask_whitelist whitelist d =
     (case d of
        JObj kvs \<Rightarrow>
          Inr (JObj (fold (\<lambda>(k, v) d'. if k \<notin> set whitelist then dict_set d' k marker else d')
                       kvs kvs))
      | _ \<Rightarrow> Inl AttributeError)"

fun mask_blacklist :: "string list \<Rightarrow> json \<Rightarrow> error + json" where
  "mask_blacklist [] d = Inr d"
| "mask_blacklist (f # fs) d =
     bind (py_in f d) (\<lambda>present.
       if present then bind (py_setitem d f marker) (mask_blacklist fs)
       else mask_blacklist fs d)"

text \<open>An argument that is \<^verbatim>\<open>None\<close> or an empty list is falsy.\<close>

definition shred_log_fields ::
  "log_entry \<Rightarrow> string list option \<Rightarrow> string list option \<Rightarrow> error + log_entry" where
  "shred_log_fields logentry blacklist whitelist =
     bind (parsed_data logentry) (\<lambda>d.
       bind (case whitelist of
               Some (w # ws) \<Rightarrow> mask_whitelist (w # ws) d
             | _ \<Rightarrow> (case blacklist of
                        Some (b # bs) \<Rightarrow> mask_blacklist (b # bs) d
                      | _ \<Rightarrow> Inr d))
            (\<lambda>d'. Inr (save_shredded logentry d')))"

subsection \<open>Masking of "order modified" payloads\<close>

text \<open>
  Each shredder reads the payload \<open>d\<close> of an entry, changes nested rows in place and, when
  the key it looks for is there, saves the entry. The result is \<open>None\<close> when the entry is
  left alone and \<open>Some d'\<close> when \<open>d'\<close> is saved. The in-place change of \<^verbatim>\<open>d['data']\<close> is
  written back into \<open>d\<close>.
\<close>

text \<open>\<^verbatim>\<open>if f in row: row[f] = marker\<close>\<close>

definition mask_if_present :: "string \<Rightarrow> json \<Rightarrow> error + json" where
  "mask_if_present f row =
     bind (py_in f row) (\<lambda>present. if present then py_setitem row f marker else Inr row)"

text \<open>
  \<^verbatim>\<open>for row in d['data']\<close> of \<^verbatim>\<open>EmailAddressShredder\<close>. A \<^verbatim>\<open>list\<close> gives its elements; a
  \<^verbatim>\<open>dict\<close> gives its keys and a \<^verbatim>\<open>str\<close> its characters, which are strings and cannot be
  assigned to; anything else is not iterable.
\<close>

definition email_rows :: "json \<Rightarrow> error + json" where
  "email_rows rows =
     (case rows of
        JList xs \<Rightarrow> bind (mapM (mask_if_present ''attendee_email'') xs) (\<lambda>xs'. Inr (JList xs'))
      | JObj kvs \<Rightarrow>
          bind (mapM (mask_if_present ''attendee_email'') (map (\<lambda>(k, v). JStr k) kvs))
               (\<lambda>_. Inr rows)
      | JStr s \<Rightarrow>
          bind (mapM (mask_if_present ''attendee_email'') (map (\<lambda>c. JStr [c]) s))
               (\<lambda>_. Inr rows)
      | _ \<Rightarrow> Inl TypeError)"

definition email_modified :: "json \<Rightarrow> error + json option" where
  "email_modified d =
     bind (py_in ''data'' d) (\<lambda>present.
       if present then
         bind (py_getitem d ''data'') (\<lambda>rows.
           bind (email_rows rows) (\<lambda>rows'.
             bind (py_setitem d ''data'' rows') (\<lambda>d'. Inr (Some d'))))
       else Inr None)"

text \<open>
  \<^verbatim>\<open>for i, row in enumerate(d['data'])\<close> of \<^verbatim>\<open>AttendeeNameShredder\<close>, which assigns through
  \<^verbatim>\<open>d['data'][i]\<close>: when \<^verbatim>\<open>d['data']\<close> is a \<^verbatim>\<open>dict\<close>, the number \<open>i\<close> is not one of its keys.
\<close>

definition name_rows :: "json \<Rightarrow> error + json" where
  "name_rows rows =
     (case rows of
        JList xs \<Rightarrow> bind (mapM (mask_if_present ''attendee_name'') xs) (\<lambda>xs'. Inr (JList xs'))
      | JObj kvs \<Rightarrow>
          bind (mapM (\<lambda>(k, v). bind (py_in ''attendee_name'' (JStr k))
                                  (\<lambda>present. if present then Inl KeyError else Inr (JStr k))) kvs)
               (\<lambda>_. Inr rows)
      | JStr s \<Rightarrow>
          bind (mapM (mask_if_present ''attendee_name'') (map (\<lambda>c. JStr [c]) s))
               (\<lambda>_. Inr rows)
      | _ \<Rightarrow> Inl TypeError)"

definition name_modified :: "json \<Rightarrow> error + json option" where
  "name_modified d =
     bind (py_in ''data'' d) (\<lambda>present.
       if present then
         bind (py_getitem d ''data'') (\<lambda>rows.
           bind (name_rows rows) (\<lambda>rows'.
             bind (py_setitem d ''data'' rows') (\<lambda>d'. Inr (Some d'))))
       else Inr None)"

text \<open>
  \<^verbatim>\<open>for field in d['invoice_data']: if d['invoice_data'][field]: d['invoice_data'][field] = marker\<close>.
  On a \<^verbatim>\<open>list\<close> the loop reads the elements of the list as it is being changed and uses
  them as indices; the length of the list stays the same.
\<close>

definition invoice_fields :: "json \<Rightarrow> error + json" where
  "invoice_fields idata =
     (case idata of
        JObj kvs \<Rightarrow>
          bind (foldM (\<lambda>field d'. bind (py_getitem (JObj d') field)
                         (\<lambda>v. Inr (if truthy v then dict_set d' field marker else d')))
                  (map fst kvs) kvs)
               (\<lambda>d'. Inr (JObj d'))
      | JList ys \<Rightarrow>
          bind (foldM (\<lambda>j ys'. bind (list_index ys' (ys' ! j))
                         (\<lambda>n. Inr (if truthy (ys' ! n) then ys'[n := marker] else ys')))
                  [0..<length ys] ys)
               (\<lambda>ys'. Inr (JList ys'))
      | JStr s \<Rightarrow> if s = [] then Inr idata else Inl TypeError
      | _ \<Rightarrow> Inl TypeError)"

definition invoice_modified :: "json \<Rightarrow> error + json option" where
  "invoice_modified d =
     bind (py_in ''invoice_data'' d) (\<lambda>present.
       if present then
         bind (py_getitem d ''invoice_data'') (\<lambda>idata.
           case idata of
             JBool b \<Rightarrow> Inr None
           | _ \<Rightarrow> bind (invoice_fields idata) (\<lambda>idata'.
                    bind (py_setitem d ''invoice_data'' idata') (\<lambda>d'. Inr (Some d'))))
       else Inr None)"

text \<open>
  \<^verbatim>\<open>for f in row: if f not in ('attendee_name', 'attendee_email'): d['data'][i][f] = marker\<close>.
  A \<^verbatim>\<open>dict\<close> row gives its keys. A \<^verbatim>\<open>list\<close> row gives its elements, read as the row is
  being changed and used as indices. A non-empty \<^verbatim>\<open>str\<close> row cannot be assigned to.
\<close>

definition qa_row :: "json \<Rightarrow> error + json" where
  "qa_row row =
     (case row of
        JObj kvs \<Rightarrow>
          Inr (JObj (fold (\<lambda>f r. if f \<noteq> ''attendee_name'' \<and> f \<noteq> ''attendee_email''
                                  then dict_set r f marker else r)
                       (map fst kvs) kvs))
      | JList ys \<Rightarrow>
          bind (foldM (\<lambda>j ys'. let f = ys' ! j in
                         if f \<noteq> JStr ''attendee_name'' \<and> f \<noteq> JStr ''attendee_email''
                         then bind (list_index ys' f) (\<lambda>n. Inr (ys'[n := marker]))
                         else Inr ys')
                  [0..<length ys] ys)
               (\<lambda>ys'. Inr (JList ys'))
      | JStr s \<Rightarrow> if s = [] then Inr row else Inl TypeError
      | _ \<Rightarrow> Inl TypeError)"

text \<open>
  \<^verbatim>\<open>for i, row in enumerate(d['data'])\<close> of \<^verbatim>\<open>QuestionAnswerShredder\<close>. The rows of a
  \<^verbatim>\<open>dict\<close> are its keys: a non-empty key has a first character, for which \<^verbatim>\<open>d['data'][i]\<close>
  is looked up and is missing. The rows of a \<^verbatim>\<open>str\<close> are its characters, which cannot be
  assigned to.
\<close>

definition qa_rows :: "json \<Rightarrow> error + json" where
  "qa_rows rows =
     (case rows of
        JList xs \<Rightarrow> bind (mapM qa_row xs) (\<lambda>xs'. Inr (JList xs'))
      | JObj kvs \<Rightarrow> if \<exists>k \<in> set (map fst kvs). k \<noteq> [] then Inl KeyError else Inr rows
      | JStr s \<Rightarrow> if s = [] then Inr rows else Inl TypeError
      | _ \<Rightarrow> Inl TypeError)"

definition qa_modified :: "json \<Rightarrow> error + json option" where
  "qa_modified d =
     bind (py_in ''data'' d) (\<lambda>present.
       if present then
         bind (py_getitem d ''data'') (\<lambda>rows.
           bind (qa_rows rows) (\<lambda>rows'.
             bind (py_setitem d ''data'' rows') (\<lambda>d'. Inr (Some d'))))
       else Inr None)"

text \<open>One pass of an "order modified" loop over an entry: parse, mask, save if masked.\<close>

definition shred_modified :: "(json \<Rightarrow> error + json option) \<Rightarrow> log_entry \<Rightarrow> error + log_entry" where
  "shred_modified masking le =
     bind (parsed_data le) (\<lambda>d.
       bind (masking d) (\<lambda>r.
         case r of None \<Rightarrow> Inr le | Some d' \<Rightarrow> Inr (save_shredded le d')))"

subsection \<open>Records and the four shredders\<close>

text \<open>
  The tables the shredders touch. A row refers to its parent by the parent's id, as the
  foreign keys \<^verbatim>\<open>order\<close> and \<^verbatim>\<open>orderposition\<close> do; a nullable column is an \<open>option\<close>. Of an
  invoice address and an answer only the serialised form matters here.
\<close>

record order =
  o_id :: nat
  o_event :: nat
  o_code :: string
  o_email :: "string option"

record order_position =
  op_id :: nat
  op_order :: nat
  op_positionid :: nat
  op_attendee_email :: "string option"
  op_attendee_name :: "string option"

record invoice_address =
  ia_order :: nat
  ia_fields :: json

record question_answer =
  qa_orderposition :: nat
  qa_fields :: json

record db =
  orders :: "order list"
  positions :: "order_position list"
  invoice_addresses :: "invoice_address list"
  answers :: "question_answer list"
  logentries :: "log_entry list"

text \<open>Following a foreign key, and the lookups \<^verbatim>\<open>order__event=self.event\<close> and
  \<^verbatim>\<open>orderposition__order__event=self.event\<close>.\<close>

definition order_by_id :: "db \<Rightarrow> nat \<Rightarrow> order option" where
  "order_by_id s i = find (\<lambda>r. o_id r = i) (orders s)"

definition order_in_event :: "db \<Rightarrow> event \<Rightarrow> nat \<Rightarrow> bool" where
  "order_in_event s ev i =
     (case order_by_id s i of Some r \<Rightarrow> o_event r = e_id ev | None \<Rightarrow> False)"

definition position_in_event :: "db \<Rightarrow> event \<Rightarrow> nat \<Rightarrow> bool" where
  "position_in_event s ev i =
     (case find (\<lambda>p. op_id p = i) (positions s) of
        Some p \<Rightarrow> order_in_event s ev (op_order p) | None \<Rightarrow> False)"

text \<open>One loop over a filtered \<^verbatim>\<open>logentry_set\<close>: the selected entries are rewritten in
  turn, and the first exception ends the loop.\<close>

definition shred_logs ::
  "(log_entry \<Rightarrow> bool) \<Rightarrow> (log_entry \<Rightarrow> error + log_entry) \<Rightarrow> db \<Rightarrow> error + db" where
  "shred_logs sel f s =
     bind (mapM (\<lambda>le. if sel le then f le else Inr le) (logentries s))
          (\<lambda>les. Inr (s\<lparr>logentries := les\<rparr>))"

text \<open>\<^verbatim>\<open>filter(action_type="pretix.event.order.modified").exclude(data="")\<close>\<close>

definition modified_entry :: "event \<Rightarrow> log_entry \<Rightarrow> bool" where
  "modified_entry ev le =
     (le_event le = e_id ev \<and> le_action_type le = ''pretix.event.order.modified''
      \<and> le_data le \<noteq> None)"

text \<open>
  \<^verbatim>\<open>shred_data\<close> runs under \<^verbatim>\<open>transaction.atomic\<close>: an exception rolls every change back
  and is passed on, so the result is either the exception or the new state.
\<close>

definition email_shred_data :: "db \<Rightarrow> event \<Rightarrow> error + db" where
  "email_shred_data s ev =
     (let s1 = s\<lparr>positions :=
                  map (\<lambda>p. if order_in_event s ev (op_order p) \<and> op_attendee_email p \<noteq> None
                            then p\<lparr>op_attendee_email := None\<rparr> else p) (positions s)\<rparr>;
          s2 = s1\<lparr>orders :=
                  map (\<lambda>r. if o_event r = e_id ev \<and> o_email r \<noteq> None
                            then r\<lparr>o_email := None\<rparr> else r) (orders s1)\<rparr>
      in bind (shred_logs (\<lambda>le. le_event le = e_id ev
                                  \<and> py_substring ''order.email'' (le_action_type le))
                 (\<lambda>le. shred_log_fields le (Some [''recipient'', ''message'']) None) s2) (\<lambda>s3.
         bind (shred_logs (\<lambda>le. le_event le = e_id ev
                                  \<and> le_action_type le = ''pretix.event.order.contact.changed'')
                 (\<lambda>le. shred_log_fields le (Some [''old_email'', ''new_email'']) None) s3) (\<lambda>s4.
         shred_logs (modified_entry ev) (shred_modified email_modified) s4)))"

definition name_shred_data :: "db \<Rightarrow> event \<Rightarrow> error + db" where
  "name_shred_data s ev =
     (let s1 = s\<lparr>positions :=
                  map (\<lambda>p. if order_in_event s ev (op_order p) \<and> op_attendee_name p \<noteq> None
                            then p\<lparr>op_attendee_name := None\<rparr> else p) (positions s)\<rparr>
      in shred_logs (modified_entry ev) (shred_modified name_modified) s1)"

definition invoice_shred_data :: "db \<Rightarrow> event \<Rightarrow> error + db" where
  "invoice_shred_data s ev =
     (let s1 = s\<lparr>invoice_addresses :=
                  filter (\<lambda>ia. \<not> order_in_event s ev (ia_order ia)) (invoice_addresses s)\<rparr>
      in shred_logs (modified_entry ev) (shred_modified invoice_modified) s1)"

definition qa_shred_data :: "db \<Rightarrow> event \<Rightarrow> error + db" where
  "qa_shred_data s ev =
     (let s1 = s\<lparr>answers :=
                  filter (\<lambda>a. \<not> position_in_event s ev (qa_orderposition a)) (answers s)\<rparr>
      in shred_logs (modified_entry ev) (shred_modified qa_modified) s1)"

subsection \<open>Exports\<close>

text \<open>
  \<^verbatim>\<open>generate_files\<close> only reads: it takes the state and gives the files together with the
  state it leaves. A file is a name, a type and a content. The encoder
  \<^verbatim>\<open>json.dumps(..., indent=4)\<close> and the serialisers \<^verbatim>\<open>InvoiceAdddressSerializer\<close> and
  \<^verbatim>\<open>AnswerSerializer\<close>, which are not part of \<^verbatim>\<open>shredder.py\<close>, are parameters.
\<close>

type_synonym export_file = "string \<times> string \<times> string"

text \<open>A \<^verbatim>\<open>dict\<close> comprehension: later pairs overwrite earlier ones with the same key.\<close>

definition dict_of :: "(string \<times> json) list \<Rightarrow> json" where
  "dict_of kvs = JObj (fold (\<lambda>(k, v) d. dict_set d k v) kvs [])"

fun str_nat :: "nat \<Rightarrow> string" where
  "str_nat n =
     (if n < 10 then [char_of (48 + n)]
      else str_nat (n div 10) @ [char_of (48 + n mod 10)])"

declare str_nat.simps [simp del]

text \<open>\<^verbatim>\<open>'{}-{}'.format(op.order.code, op.positionid)\<close> for a position of the event.\<close>

definition position_key :: "db \<Rightarrow> event \<Rightarrow> order_position \<Rightarrow> string option" where
  "position_key s ev p =
     (case order_by_id s (op_order p) of
        Some r \<Rightarrow> if o_event r = e_id ev
                  then Some (o_code r @ ''-'' @ str_nat (op_positionid p)) else None
      | None \<Rightarrow> None)"

definition email_generate_files ::
  "(json \<Rightarrow> string) \<Rightarrow> db \<Rightarrow> event \<Rightarrow> export_file list \<times> db" where
  "email_generate_files dumps s ev =
     ([(''emails-by-order.json'', ''application/json'',
        dumps (dict_of (List.map_filter
          (\<lambda>r. if o_event r = e_id ev
                then map_option (\<lambda>e. (o_code r, JStr e)) (o_email r) else None)
          (orders s)))),
       (''emails-by-attendee.json'', ''application/json'',
        dumps (dict_of (List.map_filter
          (\<lambda>p. case (position_key s ev p, op_attendee_email p) of
                  (Some k, Some e) \<Rightarrow> Some (k, JStr e) | _ \<Rightarrow> None)
          (positions s))))],
      s)"

definition name_generate_files ::
  "(json \<Rightarrow> string) \<Rightarrow> db \<Rightarrow> event \<Rightarrow> export_file list \<times> db" where
  "name_generate_files dumps s ev =
     ([(''attendee-names.json'', ''application/json'',
        dumps (dict_of (List.map_filter
          (\<lambda>p. case (position_key s ev p, op_attendee_name p) of
                  (Some k, Some n) \<Rightarrow> Some (k, JStr n) | _ \<Rightarrow> None)
          (positions s))))],
      s)"

definition invoice_generate_files ::
  "(json \<Rightarrow> string) \<Rightarrow> (invoice_address \<Rightarrow> json) \<Rightarrow> db \<Rightarrow> event
     \<Rightarrow> export_file list \<times> db" where
  "invoice_generate_files dumps serializer s ev =
     ([(''invoice-addresses.json'', ''application/json'',
        dumps (dict_of (List.map_filter
          (\<lambda>ia. case order_by_id s (ia_order ia) of
                   Some r \<Rightarrow> if o_event r = e_id ev then Some (o_code r, serializer ia) else None
                 | None \<Rightarrow> None)
          (invoice_addresses s))))],
      s)"

definition qa_generate_files ::
  "(json \<Rightarrow> string) \<Rightarrow> (question_answer list \<Rightarrow> json) \<Rightarrow> db \<Rightarrow> event
     \<Rightarrow> export_file list \<times> db" where
  "qa_generate_files dumps serializer s ev =
     ([(''question-answers.json'', ''application/json'',
        dumps (dict_of (List.map_filter
          (\<lambda>p. map_option
                  (\<lambda>k. (k, serializer (filter (\<lambda>a. qa_orderposition a = op_id p) (answers s))))
                  (position_key s ev p))
          (positions s))))],
      s)"

subsection \<open>Notions used in the statements and proofs\<close>

text \<open>Reading a payload: whether it is a mapping, its fields, the elements of a list.\<close>

fun is_obj :: "json \<Rightarrow> bool" where
  "is_obj (JObj kvs) = True"
| "is_obj _ = False"

fun obj_fields :: "json \<Rightarrow> (string \<times> json) list" where
  "obj_fields (JObj kvs) = kvs"
| "obj_fields _ = []"

definition field_of :: "json \<Rightarrow> string \<Rightarrow> json option" where
  "field_of j k = map_of (obj_fields j) k"

fun elems :: "json \<Rightarrow> json list" where
  "elems (JList xs) = xs"
| "elems _ = []"

text \<open>The rows of a payload: the elements of its \<^verbatim>\<open>data\<close> list.\<close>

definition rows_of :: "json \<Rightarrow> json list" where
  "rows_of d = (case field_of d ''data'' of Some rows \<Rightarrow> elems rows | None \<Rightarrow> [])"

text \<open>
  Masking the keys \<open>ks\<close> of a \<^verbatim>\<open>dict\<close>, one after the other: a key that is present and whose
  value satisfies \<open>P\<close> gets the marker.
\<close>

definition mask_step ::
  "(string \<Rightarrow> json \<Rightarrow> bool) \<Rightarrow> string \<Rightarrow> (string \<times> json) list \<Rightarrow> (string \<times> json) list" where
  "mask_step P k d =
     (case map_of d k of Some v \<Rightarrow> if P k v then dict_set d k marker else d | None \<Rightarrow> d)"

definition mask_keys ::
  "(string \<Rightarrow> json \<Rightarrow> bool) \<Rightarrow> string list \<Rightarrow> (string \<times> json) list \<Rightarrow> (string \<times> json) list" where
  "mask_keys P ks d = fold (mask_step P) ks d"

text \<open>
  \<open>kvs'\<close> is \<open>kvs\<close> with exactly the fields that satisfy \<open>P\<close> replaced by the marker: the
  same keys in the same order, and every other value as it was.
\<close>

definition masked_dict ::
  "(string \<Rightarrow> json \<Rightarrow> bool) \<Rightarrow> (string \<times> json) list \<Rightarrow> (string \<times> json) list \<Rightarrow> bool" where
  "masked_dict P kvs kvs' =
     (map fst kvs' = map fst kvs \<and>
      (\<forall>k \<in> set (map fst kvs).
         map_of kvs' k = map_option (\<lambda>v. if P k v then marker else v) (map_of kvs k)))"

text \<open>\<open>j'\<close> has the keys of \<open>j\<close>, in the same order, and the same value at every key that is
  not owned.\<close>

definition same_fields_except :: "(string \<Rightarrow> bool) \<Rightarrow> json \<Rightarrow> json \<Rightarrow> bool" where
  "same_fields_except owned j j' =
     (map fst (obj_fields j') = map fst (obj_fields j) \<and>
      (\<forall>k. \<not> owned k \<longrightarrow> field_of j' k = field_of j k))"

text \<open>
  The shape of an "order modified" payload in the data model: a mapping whose \<^verbatim>\<open>data\<close>, if
  present, is a list of mappings (one per order position) and whose \<^verbatim>\<open>invoice_data\<close>, if
  present, is a mapping or a boolean.
\<close>

definition well_shaped :: "json \<Rightarrow> bool" where
  "well_shaped d =
     (is_obj d \<and>
      (case field_of d ''data'' of
         None \<Rightarrow> True | Some (JList xs) \<Rightarrow> list_all is_obj xs | Some _ \<Rightarrow> False) \<and>
      (case field_of d ''invoice_data'' of
         None \<Rightarrow> True | Some (JBool b) \<Rightarrow> True | Some (JObj a) \<Rightarrow> True | Some _ \<Rightarrow> False))"

text \<open>The payload saved by a pass that applies \<open>h\<close> to the fields of every row.\<close>

definition rows_masked ::
  "((string \<times> json) list \<Rightarrow> (string \<times> json) list) \<Rightarrow> (string \<times> json) list \<Rightarrow> json option" where
  "rows_masked h kvs =
     (case map_of kvs ''data'' of
        Some (JList xs) \<Rightarrow>
          Some (JObj (dict_set kvs ''data'' (JList (map (\<lambda>r. JObj (h (obj_fields r))) xs))))
      | _ \<Rightarrow> None)"

text \<open>
  The entries a shredder rewrites: those it hands to \<^verbatim>\<open>shred_log_fields\<close>, and the
  "order modified" entries of the event with non-empty \<^verbatim>\<open>data\<close> whose payload is a mapping
  with the key the shredder looks for.
\<close>

definition has_key :: "string \<Rightarrow> log_entry \<Rightarrow> bool" where
  "has_key k le = (case le_data le of Some d \<Rightarrow> field_of d k \<noteq> None | None \<Rightarrow> False)"

definition rewrites_rows :: "event \<Rightarrow> log_entry \<Rightarrow> bool" where
  "rewrites_rows ev le =
     (le_event le = e_id ev \<and> le_action_type le = ''pretix.event.order.modified''
      \<and> has_key ''data'' le)"

definition email_rewrites :: "event \<Rightarrow> log_entry \<Rightarrow> bool" where
  "email_rewrites ev le =
     (le_event le = e_id ev \<and>
      (py_substring ''order.email'' (le_action_type le)
       \<or> le_action_type le = ''pretix.event.order.contact.changed'')
      \<or> rewrites_rows ev le)"

definition invoice_rewrites :: "event \<Rightarrow> log_entry \<Rightarrow> bool" where
  "invoice_rewrites ev le =
     (le_event le = e_id ev \<and> le_action_type le = ''pretix.event.order.modified''
      \<and> (case le_data le of
            Some d \<Rightarrow> (case field_of d ''invoice_data'' of
                         None \<Rightarrow> False | Some (JBool b) \<Rightarrow> False | Some _ \<Rightarrow> True)
          | None \<Rightarrow> False))"


subsection \<open>Example payloads, entries and states\<close>


definition acme_invoice :: json where
  "acme_invoice = JObj [(''company'', JStr ''Acme''), (''vat_id'', JStr '''')]"

definition payload_with :: "json \<Rightarrow> json \<Rightarrow> json \<Rightarrow> json \<Rightarrow> json \<Rightarrow> json" where
  "payload_with company vat_id name email answer =
     JObj [(''invoice_data'', JObj [(''company'', company), (''vat_id'', vat_id)]),
           (''data'', JList [JObj [(''attendee_name'', name), (''attendee_email'', email),
                                   (''question_7'', answer)]])]"

definition modified_payload :: json where
  "modified_payload =
     payload_with (JStr ''Acme'') (JStr []) (JStr ''Jane Doe'') (JStr ''j@x.com'') (JStr ''vegan'')"

definition le1 :: log_entry where
  "le1 = \<lparr>le_event = 1, le_action_type = ''pretix.event.order.email.sent'',
          le_data = Some (JObj [(''recipient'', JStr ''j@x.com''), (''subject'', JStr ''Hi'')]),
          le_shredded = False\<rparr>"

definition le2 :: log_entry where
  "le2 = \<lparr>le_event = 1, le_action_type = ''pretix.event.order.modified'',
          le_data = Some modified_payload, le_shredded = False\<rparr>"

definition le3 :: log_entry where
  "le3 = \<lparr>le_event = 1, le_action_type = ''pretix.event.order.modified'',
          le_data = Some (JObj [(''invoice_data'', JBool False), (''data'', JList [])]),
          le_shredded = False\<rparr>"

definition event1 :: event where
  "event1 = \<lparr>e_id = 1, date_from = Some 0, date_to = None, live = False\<rparr>"

definition db1 :: db where
  "db1 = \<lparr>orders = [\<lparr>o_id = 7, o_event = 1, o_code = ''ABC12'', o_email = Some ''j@x.com''\<rparr>],
          positions = [\<lparr>op_id = 3, op_order = 7, op_positionid = 1,
                        op_attendee_email = Some ''j@x.com'', op_attendee_name = Some ''Jane Doe''\<rparr>],
          invoice_addresses = [\<lparr>ia_order = 7, ia_fields = acme_invoice\<rparr>],
          answers = [\<lparr>qa_orderposition = 3, qa_fields = JStr ''vegan''\<rparr>],
          logentries = [le1, le2]\<rparr>"

definition db3 :: db where
  "db3 = \<lparr>orders = [], positions = [], invoice_addresses = [], answers = [], logentries = [le3]\<rparr>"





section \<open>Properties of the eligibility gate\<close>

lemma msgs_distinct: "msg_over_60_days \<noteq> msg_shop_offline"
  by (simp add: msg_over_60_days_def msg_shop_offline_def)

text \<open>
  C1, as stated, fails on the boundary: an event whose later date lies exactly 60 days
  before the evaluation time is not "more than 60 days" in the past, yet the gate returns
  no reason for it (when it is not live).
\<close>

theorem shred_constraints_boundary_counterexample:
  "shred_constraints (timedelta_days 60)
     \<lparr>e_id = 1, date_from = Some 0, date_to = Some 0, live = False\<rparr> = Inr None
   \<and> \<not> (timedelta_days 60 - max (0::int) 0 > timedelta_days 60)"
  by (simp add: shred_constraints_def py_or_def timedelta_days_def)

text \<open>
  The date the gate looks at is \<^verbatim>\<open>date_to or date_from\<close>, which is not the later of the
  two when the start is later than the end.
\<close>

lemma shred_constraints_not_max:
  "shred_constraints (timedelta_days 80)
     \<lparr>e_id = 1, date_from = Some (timedelta_days 100), date_to = Some (timedelta_days 10),
      live = False\<rparr> = Inr None
   \<and> max (timedelta_days 100) (timedelta_days 10) > timedelta_days 80 - timedelta_days 60"
  by (simp add: shred_constraints_def py_or_def timedelta_days_def)

text \<open>
  C1 (amended): for every event with at least one of its dates set, the gate returns, and
  it returns a reason exactly when the event's end (\<^verbatim>\<open>date_to\<close>, or \<^verbatim>\<open>date_from\<close> when
  \<^verbatim>\<open>date_to\<close> is unset) is less than 60 days before the evaluation time, or the event is
  live; it returns none exactly when both rules pass.
\<close>

theorem shred_constraints_reason_iff:
  assumes "py_or (date_to ev) (date_from ev) = Some t"
  shows "\<exists>r. shred_constraints now ev = Inr r \<and>
           ((r \<noteq> None) = (now - t < timedelta_days 60 \<or> live ev))"
  using assms by (auto simp: shred_constraints_def)

theorem shred_constraints_reason_iff_witness:
  "py_or (date_to \<lparr>e_id = 1, date_from = Some 5, date_to = None, live = False\<rparr>)
         (date_from \<lparr>e_id = 1, date_from = Some 5, date_to = None, live = False\<rparr>) = Some 5
   \<and> (\<exists>r. shred_constraints (timedelta_days 90)
              \<lparr>e_id = 1, date_from = Some 5, date_to = None, live = False\<rparr> = Inr r
          \<and> ((r \<noteq> None) = (timedelta_days 90 - 5 < timedelta_days 60 \<or> False)))"
proof -
  have h: "py_or (date_to \<lparr>e_id = 1, date_from = Some 5, date_to = None, live = False\<rparr>)
         (date_from \<lparr>e_id = 1, date_from = Some 5, date_to = None, live = False\<rparr>) = Some 5"
    by (simp add: py_or_def)
  show ?thesis
    using h shred_constraints_reason_iff [OF h, of "timedelta_days 90"] by simp
qed

text \<open>
  C3, as stated, fails: a live event whose end is less than 60 days in the past gets the
  "over for at least 60 days" reason, not the "shop offline" one, since the date rule is
  checked first.
\<close>

theorem shred_constraints_live_counterexample:
  "shred_constraints 0 \<lparr>e_id = 1, date_from = Some 0, date_to = Some 0, live = True\<rparr>
     \<noteq> Inr (Some msg_shop_offline)"
  by (simp add: shred_constraints_def py_or_def timedelta_days_def msgs_distinct)

text \<open>
  C3 (amended): a live event with a date set always gets a reason; it is the
  "shop offline" reason when the event's end is at least 60 days before the evaluation
  time, and the "over for at least 60 days" reason otherwise. An event that ended more
  than 60 days before the evaluation time and is not live gets none.
\<close>

theorem shred_constraints_live:
  assumes "py_or (date_to ev) (date_from ev) = Some t"
  shows "(live ev \<longrightarrow>
            shred_constraints now ev =
              Inr (Some (if now - t < timedelta_days 60 then msg_over_60_days
                         else msg_shop_offline)))
         \<and> (\<not> live ev \<and> now - t > timedelta_days 60 \<longrightarrow> shred_constraints now ev = Inr None)"
  using assms by (auto simp: shred_constraints_def)

theorem shred_constraints_live_witness:
  "py_or (date_to \<lparr>e_id = 1, date_from = Some 0, date_to = Some 7, live = True\<rparr>)
         (date_from \<lparr>e_id = 1, date_from = Some 0, date_to = Some 7, live = True\<rparr>) = Some 7
   \<and> shred_constraints (timedelta_days 90)
        \<lparr>e_id = 1, date_from = Some 0, date_to = Some 7, live = True\<rparr>
       = Inr (Some msg_shop_offline)"
proof -
  have h: "py_or (date_to \<lparr>e_id = 1, date_from = Some 0, date_to = Some 7, live = True\<rparr>)
         (date_from \<lparr>e_id = 1, date_from = Some 0, date_to = Some 7, live = True\<rparr>) = Some 7"
    by (simp add: py_or_def)
  show ?thesis
    using h shred_constraints_live [OF h, of "timedelta_days 90"]
    by (simp add: timedelta_days_def)
qed

section \<open>Dictionaries and masking loops\<close>


lemma dict_set_keys: "k \<in> fst ` set d \<Longrightarrow> map fst (dict_set d k v) = map fst d"
  by (induction d) force+

lemma map_of_dict_set: "map_of (dict_set d k v) k' = (if k' = k then Some v else map_of d k')"
  by (induction d) auto

lemma dict_set_same: "map_of d k = Some v \<Longrightarrow> dict_set d k v = d"
  by (induction d) (auto split: if_splits)

lemma map_of_keys: "(map_of d k \<noteq> None) = (k \<in> fst ` set d)"
  by (simp add: map_of_eq_None_iff)



lemma dict_set_keys_Some: "map_of d k = Some x \<Longrightarrow> map fst (dict_set d k v) = map fst d"
  by (induction d) (auto split: if_splits)

lemma mask_step_keys: "map fst (mask_step P k d) = map fst d"
  by (simp add: mask_step_def dict_set_keys_Some split: option.splits)

lemma mask_keys_keys: "map fst (mask_keys P ks d) = map fst d"
  unfolding mask_keys_def by (induction ks arbitrary: d) (simp_all add: mask_step_keys)

lemma map_of_mask_step:
  "map_of (mask_step P k d) k' =
     map_option (\<lambda>v. if k' = k \<and> P k' v then marker else v) (map_of d k')"
  by (cases "map_of d k'") (auto simp: mask_step_def map_of_dict_set split: option.splits)

lemma map_of_mask_keys:
  "map_of (mask_keys P ks d) k =
     map_option (\<lambda>v. if k \<in> set ks \<and> P k v then marker else v) (map_of d k)"
  unfolding mask_keys_def
proof (induction ks arbitrary: d)
  case Nil
  then show ?case by (simp add: option.map_ident)
next
  case (Cons a ks)
  show ?case
    by (cases "map_of d k") (auto simp: Cons.IH map_of_mask_step)
qed

lemma mask_keys_fixed:
  "\<forall>k\<in>set ks. \<forall>v. map_of d k = Some v \<and> P k v \<longrightarrow> v = marker \<Longrightarrow> mask_keys P ks d = d"
  unfolding mask_keys_def
proof (induction ks)
  case Nil
  then show ?case by simp
next
  case (Cons a ks)
  have "mask_step P a d = d"
    using Cons.prems by (auto simp: mask_step_def dict_set_same split: option.splits)
  then show ?case using Cons by simp
qed

lemma mask_keys_idem: "mask_keys P ks (mask_keys P ks d) = mask_keys P ks d"
  by (rule mask_keys_fixed) (auto simp: map_of_mask_keys split: if_splits)



lemma masked_dict_mask_keys:
  "masked_dict (\<lambda>k v. k \<in> set ks \<and> P k v) d (mask_keys P ks d)"
  by (simp add: masked_dict_def mask_keys_keys map_of_mask_keys)

lemma map_of_None_keys: "(map_of d k = None) = (k \<notin> fst ` set d)"
  by (simp add: map_of_eq_None_iff)

lemma bind_Inr [simp]: "bind (Inr x) f = f x"
  by (simp add: bind_def)

lemma bind_Inl [simp]: "bind (Inl e) f = Inl e"
  by (simp add: bind_def)

lemma bind_eq_Inr: "(bind m f = Inr y) = (\<exists>x. m = Inr x \<and> f x = Inr y)"
  by (cases m) simp_all

lemma mask_blacklist_obj:
  "mask_blacklist fs (JObj d) = Inr (JObj (mask_keys (\<lambda>k v. True) fs d))"
proof (induction fs arbitrary: d)
  case Nil
  then show ?case by (simp add: mask_keys_def)
next
  case (Cons f fs)
  show ?case
  proof (cases "map_of d f")
    case None
    then have "f \<notin> fst ` set d" by (simp add: map_of_None_keys)
    then show ?thesis using None Cons.IH [of d]
      by (simp add: mask_keys_def mask_step_def)
  next
    case (Some v)
    then have "f \<in> fst ` set d" by (metis map_of_None_keys option.distinct(1))
    then show ?thesis using Some Cons.IH [of "dict_set d f marker"]
      by (simp add: mask_keys_def mask_step_def)
  qed
qed

lemma whitelist_fold:
  "fst ` set items \<subseteq> fst ` set d \<Longrightarrow>
   fold (\<lambda>(k, v) d'. if k \<notin> set wl then dict_set d' k marker else d') items d
     = mask_keys (\<lambda>k v. k \<notin> set wl) (map fst items) d"
proof (induction items arbitrary: d)
  case Nil
  then show ?case by (simp add: mask_keys_def)
next
  case (Cons a items)
  obtain k v where a: "a = (k, v)" by (cases a)
  from Cons.prems a obtain x where x: "map_of d k = Some x"
    by (cases "map_of d k") (auto simp: map_of_None_keys)
  have step: "mask_step (\<lambda>k v. k \<notin> set wl) k d = (if k \<notin> set wl then dict_set d k marker else d)"
    using x by (simp add: mask_step_def)
  have keys: "fst ` set items \<subseteq> fst ` set (mask_step (\<lambda>k v. k \<notin> set wl) k d)"
    using Cons.prems mask_step_keys [of "\<lambda>k v. k \<notin> set wl" k d]
    by (metis (no_types, lifting) insert_subset list.set_map list.simps(15) image_insert)
  show ?case
    using Cons.IH [OF keys] step a by (simp add: mask_keys_def)
qed

lemma mask_whitelist_obj:
  "mask_whitelist wl (JObj d) = Inr (JObj (mask_keys (\<lambda>k v. k \<notin> set wl) (map fst d) d))"
  by (simp add: mask_whitelist_def whitelist_fold)


section \<open>The redaction primitive\<close>

text \<open>
  C8: on a payload that is a mapping, \<^verbatim>\<open>shred_log_fields\<close> with a blacklist (and no
  whitelist) replaces every blacklisted field that is present by the marker, adds no key
  and leaves every other field as it was; with a whitelist (and no blacklist) it replaces
  every field that is not in the whitelist by the marker. A list is supplied when it is
  not empty. The entry is saved with the new payload and \<^verbatim>\<open>shredded = True\<close> in one write.
\<close>

theorem shred_log_fields_masks:
  assumes "le_data le = Some (JObj kvs)"
  shows "(\<exists>kvs'. shred_log_fields le (Some (b # bs)) None
                    = Inr (le\<lparr>le_data := Some (JObj kvs'), le_shredded := True\<rparr>)
                \<and> masked_dict (\<lambda>k v. k \<in> set (b # bs)) kvs kvs')
       \<and> (\<exists>kvs'. shred_log_fields le None (Some (w # ws))
                    = Inr (le\<lparr>le_data := Some (JObj kvs'), le_shredded := True\<rparr>)
                \<and> masked_dict (\<lambda>k v. k \<notin> set (w # ws)) kvs kvs')"
proof -
  have bl: "shred_log_fields le (Some (b # bs)) None
              = Inr (le\<lparr>le_data := Some (JObj (mask_keys (\<lambda>k v. True) (b # bs) kvs)),
                       le_shredded := True\<rparr>)"
    using assms mask_blacklist_obj [of "b # bs" kvs]
    by (simp add: shred_log_fields_def parsed_data_def save_shredded_def)
  have wl: "shred_log_fields le None (Some (w # ws))
              = Inr (le\<lparr>le_data := Some (JObj (mask_keys (\<lambda>k v. k \<notin> set (w # ws)) (map fst kvs) kvs)),
                       le_shredded := True\<rparr>)"
    using assms mask_whitelist_obj [of "w # ws" kvs]
    by (simp add: shred_log_fields_def parsed_data_def save_shredded_def)
  have m1: "masked_dict (\<lambda>k v. k \<in> set (b # bs)) kvs (mask_keys (\<lambda>k v. True) (b # bs) kvs)"
    using masked_dict_mask_keys [of "b # bs" "\<lambda>k v. True" kvs] by simp
  have m2: "masked_dict (\<lambda>k v. k \<notin> set (w # ws)) kvs
              (mask_keys (\<lambda>k v. k \<notin> set (w # ws)) (map fst kvs) kvs)"
    using masked_dict_mask_keys [of "map fst kvs" "\<lambda>k v. k \<notin> set (w # ws)" kvs]
    by (simp add: masked_dict_def)
  show ?thesis using bl wl m1 m2 by blast
qed


theorem shred_log_fields_masks_witness:
  "le_data le1 = Some (JObj [(''recipient'', JStr ''j@x.com''), (''subject'', JStr ''Hi'')])
   \<and> shred_log_fields le1 (Some [''recipient'', ''message'']) None
       = Inr (le1\<lparr>le_data := Some (JObj [(''recipient'', marker), (''subject'', JStr ''Hi'')]),
                 le_shredded := True\<rparr>)
   \<and> shred_log_fields le1 None (Some [''recipient''])
       = Inr (le1\<lparr>le_data := Some (JObj [(''recipient'', JStr ''j@x.com''), (''subject'', marker)]),
                 le_shredded := True\<rparr>)"
proof -
  have h: "le_data le1 = Some (JObj [(''recipient'', JStr ''j@x.com''), (''subject'', JStr ''Hi'')])"
    by (simp add: le1_def)
  have c1: "shred_log_fields le1 (Some [''recipient'', ''message'']) None
       = Inr (le1\<lparr>le_data := Some (JObj [(''recipient'', marker), (''subject'', JStr ''Hi'')]),
                 le_shredded := True\<rparr>)"
    by (simp add: le1_def shred_log_fields_def parsed_data_def save_shredded_def)
  have c2: "shred_log_fields le1 None (Some [''recipient''])
       = Inr (le1\<lparr>le_data := Some (JObj [(''recipient'', JStr ''j@x.com''), (''subject'', marker)]),
                 le_shredded := True\<rparr>)"
    by (simp add: le1_def shred_log_fields_def parsed_data_def save_shredded_def mask_whitelist_def)
  from shred_log_fields_masks [OF h, of "''recipient''" "[''message'']" "''recipient''" "[]"]
  show ?thesis using h c1 c2 by simp
qed

text \<open>
  C10: \<^verbatim>\<open>shred_log_fields\<close> marks the entry as shredded and saves its payload also when
  nothing is masked: when no whitelist is in effect and the blacklist is \<^verbatim>\<open>None\<close>, empty,
  or names no field of the payload. The entry then has \<^verbatim>\<open>shredded = True\<close> and the payload
  it had before.
\<close>

theorem shred_log_fields_marks_unmasked:
  assumes "le_data le = Some d"
    and "wl = None \<or> wl = Some []"
    and "bl = None \<or> bl = Some [] \<or> (\<exists>fs kvs. bl = Some fs \<and> d = JObj kvs \<and> set fs \<inter> fst ` set kvs = {})"
  shows "\<exists>le'. shred_log_fields le bl wl = Inr le' \<and> le_shredded le' \<and> le_data le' = le_data le"
proof -
  have "(case wl of Some (w # ws) \<Rightarrow> mask_whitelist (w # ws) d
         | _ \<Rightarrow> (case bl of Some (b # bs) \<Rightarrow> mask_blacklist (b # bs) d | _ \<Rightarrow> Inr d)) = Inr d"
  proof (cases "\<exists>fs kvs. bl = Some fs \<and> d = JObj kvs \<and> set fs \<inter> fst ` set kvs = {}")
    case True
    then obtain fs kvs where b: "bl = Some fs" "d = JObj kvs" "set fs \<inter> fst ` set kvs = {}"
      by blast
    have "mask_keys (\<lambda>k v. True) fs kvs = kvs"
    proof (rule mask_keys_fixed, intro ballI allI impI)
      fix k v assume "k \<in> set fs" "map_of kvs k = Some v \<and> True"
      then have "k \<in> set fs \<inter> fst ` set kvs" by (force dest: map_of_SomeD)
      then show "v = marker" using b(3) by simp
    qed
    then have "mask_blacklist fs d = Inr d" using b by (simp add: mask_blacklist_obj)
    then show ?thesis using assms(2) b by (auto split: list.splits)
  next
    case False
    then show ?thesis using assms(2,3) by auto
  qed
  then show ?thesis using assms(1)
    by (simp add: shred_log_fields_def parsed_data_def save_shredded_def)
qed


theorem shred_log_fields_marks_unmasked_witness:
  "le_data le1 = Some (JObj [(''recipient'', JStr ''j@x.com''), (''subject'', JStr ''Hi'')])
   \<and> (\<exists>le'. shred_log_fields le1 (Some [''old_email'', ''new_email'']) (Some []) = Inr le'
          \<and> le_shredded le' \<and> le_data le' = le_data le1)
   \<and> \<not> le_shredded le1"
proof -
  have h: "le_data le1 = Some (JObj [(''recipient'', JStr ''j@x.com''), (''subject'', JStr ''Hi'')])"
    by (simp add: le1_def)
  have w: "Some [] = None \<or> Some [] = Some ([] :: string list)" by simp
  have b: "Some [''old_email'', ''new_email''] = None \<or> Some [''old_email'', ''new_email''] = Some []
       \<or> (\<exists>fs kvs. Some [''old_email'', ''new_email''] = Some fs
             \<and> JObj [(''recipient'', JStr ''j@x.com''), (''subject'', JStr ''Hi'')] = JObj kvs
             \<and> set fs \<inter> fst ` set kvs = {})"
    by simp
  have "\<not> le_shredded le1" by (simp add: le1_def)
  then show ?thesis
    using h shred_log_fields_marks_unmasked [OF h w b] by simp
qed


lemma mapM_map: "(\<And>x. x \<in> set xs \<Longrightarrow> f x = Inr (g x)) \<Longrightarrow> mapM f xs = Inr (map g xs)"
  by (induction xs) simp_all

lemma keys_subsetD: "set ks \<subseteq> fst ` set d \<Longrightarrow> k \<in> set ks \<Longrightarrow> \<exists>v. map_of d k = Some v"
  by (cases "map_of d k") (auto simp: map_of_None_keys)

lemma invoice_foldM:
  "set ks \<subseteq> fst ` set d \<Longrightarrow>
   foldM (\<lambda>field d'. bind (py_getitem (JObj d') field)
            (\<lambda>v. Inr (if truthy v then dict_set d' field marker else d'))) ks d
     = Inr (mask_keys (\<lambda>k v. truthy v) ks d)"
proof (induction ks arbitrary: d)
  case Nil
  then show ?case by (simp add: mask_keys_def)
next
  case (Cons k ks)
  from keys_subsetD [OF Cons.prems, of k] obtain x where x: "map_of d k = Some x" by auto
  have keys: "set ks \<subseteq> fst ` set (mask_step (\<lambda>k v. truthy v) k d)"
    using Cons.prems mask_step_keys [of "\<lambda>k v. truthy v" k d]
    by (metis (no_types, lifting) insert_subset list.set_map list.simps(15))
  have step: "mask_step (\<lambda>k v. truthy v) k d = (if truthy x then dict_set d k marker else d)"
    using x by (simp add: mask_step_def)
  show ?case using Cons.IH [OF keys] x step by (simp add: mask_keys_def)
qed

lemma invoice_fields_obj:
  "invoice_fields (JObj kvs) = Inr (JObj (mask_keys (\<lambda>k v. truthy v) (map fst kvs) kvs))"
  by (simp add: invoice_fields_def invoice_foldM del: py_getitem.simps)

lemma qa_fold:
  "set ks \<subseteq> fst ` set d \<Longrightarrow>
   fold (\<lambda>f r. if f \<noteq> ''attendee_name'' \<and> f \<noteq> ''attendee_email''
                then dict_set r f marker else r) ks d
     = mask_keys (\<lambda>k v. k \<noteq> ''attendee_name'' \<and> k \<noteq> ''attendee_email'') ks d"
proof (induction ks arbitrary: d)
  case Nil
  then show ?case by (simp add: mask_keys_def)
next
  case (Cons k ks)
  let ?P = "\<lambda>(k::string) (v::json). k \<noteq> ''attendee_name'' \<and> k \<noteq> ''attendee_email''"
  from keys_subsetD [OF Cons.prems, of k] obtain x where x: "map_of d k = Some x" by auto
  have keys: "set ks \<subseteq> fst ` set (mask_step ?P k d)"
    using Cons.prems mask_step_keys [of ?P k d]
    by (metis (no_types, lifting) insert_subset list.set_map list.simps(15))
  have step: "mask_step ?P k d = (if ?P k x then dict_set d k marker else d)"
    using x by (simp add: mask_step_def)
  show ?case using Cons.IH [OF keys] step by (simp add: mask_keys_def)
qed

lemma qa_row_obj:
  "qa_row (JObj kvs) =
     Inr (JObj (mask_keys (\<lambda>k v. k \<noteq> ''attendee_name'' \<and> k \<noteq> ''attendee_email'')
                  (map fst kvs) kvs))"
  by (simp add: qa_row_def qa_fold)

lemma mask_if_present_obj:
  "mask_if_present f (JObj kvs) = Inr (JObj (mask_keys (\<lambda>k v. True) [f] kvs))"
proof (cases "map_of kvs f")
  case None
  then have "f \<notin> fst ` set kvs" by (simp add: map_of_None_keys)
  then show ?thesis using None
    by (simp add: mask_if_present_def mask_keys_def mask_step_def)
next
  case (Some v)
  then have "f \<in> fst ` set kvs" by (metis map_of_None_keys option.distinct(1))
  then show ?thesis using Some
    by (simp add: mask_if_present_def mask_keys_def mask_step_def)
qed


lemma map_of_data_in: "map_of d k = Some v \<Longrightarrow> k \<in> fst ` set d"
  by (metis map_of_None_keys option.distinct(1))

section \<open>Masking of "order modified" payloads\<close>



lemma dict_set_twice: "dict_set (dict_set d k v) k v' = dict_set d k v'"
  by (induction d) auto

lemma well_shaped_rows:
  assumes "well_shaped (JObj kvs)"
  shows "map_of kvs ''data'' = None \<or> (\<exists>xs. map_of kvs ''data'' = Some (JList xs) \<and> (\<forall>r\<in>set xs. is_obj r))"
  using assms by (auto simp: well_shaped_def field_of_def list_all_iff split: option.splits json.splits)

lemma rows_pass:
  assumes ws: "well_shaped (JObj kvs)"
    and row: "\<And>a. f (JObj a) = Inr (JObj (h a))"
    and lst: "\<And>xs. rowsf (JList xs) = bind (mapM f xs) (\<lambda>xs'. Inr (JList xs'))"
  shows "bind (py_in ''data'' (JObj kvs)) (\<lambda>present.
       if present then
         bind (py_getitem (JObj kvs) ''data'') (\<lambda>rows.
           bind (rowsf rows) (\<lambda>rows'.
             bind (py_setitem (JObj kvs) ''data'' rows') (\<lambda>d'. Inr (Some d'))))
       else Inr None) = Inr (rows_masked h kvs)"
proof -
  from well_shaped_rows [OF ws] show ?thesis
  proof
    assume n: "map_of kvs ''data'' = None"
    then have "''data'' \<notin> fst ` set kvs" by (simp add: map_of_None_keys)
    then show ?thesis using n by (simp add: rows_masked_def)
  next
    assume "\<exists>xs. map_of kvs ''data'' = Some (JList xs) \<and> (\<forall>r\<in>set xs. is_obj r)"
    then obtain xs where xs: "map_of kvs ''data'' = Some (JList xs)" "\<forall>r\<in>set xs. is_obj r"
      by blast
    have "f r = Inr (JObj (h (obj_fields r)))" if "r \<in> set xs" for r
    proof -
      from that xs(2) have "is_obj r" by blast
      then show ?thesis by (cases r) (simp_all add: row)
    qed
    then have "mapM f xs = Inr (map (\<lambda>r. JObj (h (obj_fields r))) xs)"
      by (rule mapM_map)
    then show ?thesis using xs(1) map_of_data_in [OF xs(1)]
      by (simp add: rows_masked_def lst)
  qed
qed

lemma email_modified_shaped:
  "well_shaped (JObj kvs) \<Longrightarrow>
   email_modified (JObj kvs) = Inr (rows_masked (mask_keys (\<lambda>k v. True) [''attendee_email'']) kvs)"
  unfolding email_modified_def
  by (rule rows_pass [where f = "mask_if_present ''attendee_email''"])
     (simp_all add: mask_if_present_obj email_rows_def)

lemma name_modified_shaped:
  "well_shaped (JObj kvs) \<Longrightarrow>
   name_modified (JObj kvs) = Inr (rows_masked (mask_keys (\<lambda>k v. True) [''attendee_name'']) kvs)"
  unfolding name_modified_def
  by (rule rows_pass [where f = "mask_if_present ''attendee_name''"])
     (simp_all add: mask_if_present_obj name_rows_def)

lemma qa_modified_shaped:
  "well_shaped (JObj kvs) \<Longrightarrow>
   qa_modified (JObj kvs)
     = Inr (rows_masked (\<lambda>a. mask_keys (\<lambda>k v. k \<noteq> ''attendee_name'' \<and> k \<noteq> ''attendee_email'')
                             (map fst a) a) kvs)"
  unfolding qa_modified_def
  by (rule rows_pass [where f = qa_row])
     (simp_all add: qa_row_obj qa_rows_def)

lemma map_of_dict_set_other: "k' \<noteq> k \<Longrightarrow> map_of (dict_set d k v) k' = map_of d k'"
  by (simp add: map_of_dict_set)

lemma rows_masked_shaped:
  assumes "well_shaped (JObj kvs)" and "rows_masked h kvs = Some d'"
  shows "well_shaped d'"
proof -
  from assms(2) obtain xs where xs: "map_of kvs ''data'' = Some (JList xs)"
    and d': "d' = JObj (dict_set kvs ''data'' (JList (map (\<lambda>r. JObj (h (obj_fields r))) xs)))"
    by (auto simp: rows_masked_def split: option.splits json.splits)
  show ?thesis using assms(1) unfolding d'
    by (simp add: well_shaped_def field_of_def map_of_dict_set list_all_iff)
qed

lemma rows_masked_idem:
  assumes "\<And>a. h (h a) = h a" and "rows_masked h kvs = Some (JObj kvs')"
  shows "rows_masked h kvs' = Some (JObj kvs')"
proof -
  from assms(2) obtain xs where xs: "map_of kvs ''data'' = Some (JList xs)"
    and d': "kvs' = dict_set kvs ''data'' (JList (map (\<lambda>r. JObj (h (obj_fields r))) xs))"
    by (auto simp: rows_masked_def split: option.splits json.splits)
  show ?thesis unfolding d'
    by (simp add: rows_masked_def map_of_dict_set dict_set_twice assms(1) comp_def)
qed

lemma rows_masked_obj: "rows_masked h kvs = Some d' \<Longrightarrow> is_obj d'"
  by (auto simp: rows_masked_def split: option.splits json.splits)

text \<open>One pass of a shredder whose masking is \<open>rows_masked h\<close> on well-shaped payloads.\<close>

lemma shred_modified_twice:
  assumes data: "le_data le = Some (JObj kvs)" and ws: "well_shaped (JObj kvs)"
    and m: "\<And>kvs. well_shaped (JObj kvs) \<Longrightarrow> m (JObj kvs) = Inr (rows_masked h kvs)"
    and h: "\<And>a. h (h a) = h a"
  shows "\<exists>l1. shred_modified m le = Inr l1 \<and> shred_modified m l1 = Inr l1"
proof (cases "rows_masked h kvs")
  case None
  then have "shred_modified m le = Inr le"
    using data m [OF ws] by (simp add: shred_modified_def parsed_data_def)
  then show ?thesis by simp
next
  case (Some d')
  from rows_masked_obj [OF Some] obtain kvs' where d': "d' = JObj kvs'" by (cases d') simp_all
  have ws': "well_shaped (JObj kvs')" using rows_masked_shaped [OF ws Some] d' by simp
  have again: "rows_masked h kvs' = Some (JObj kvs')"
    using rows_masked_idem [OF h] Some d' by simp
  have 1: "shred_modified m le = Inr (save_shredded le (JObj kvs'))"
    using data m [OF ws] Some d' by (simp add: shred_modified_def parsed_data_def)
  have 2: "shred_modified m (save_shredded le (JObj kvs')) = Inr (save_shredded le (JObj kvs'))"
    using m [OF ws'] again by (simp add: shred_modified_def parsed_data_def save_shredded_def)
  show ?thesis using 1 2 by simp
qed


lemma invoice_modified_twice:
  assumes data: "le_data le = Some (JObj kvs)" and ws: "well_shaped (JObj kvs)"
  shows "\<exists>l1. shred_modified invoice_modified le = Inr l1
             \<and> shred_modified invoice_modified l1 = Inr l1"
proof -
  let ?h = "\<lambda>a. mask_keys (\<lambda>k v. truthy v) (map fst a) a"
  have hh: "?h (?h a) = ?h a" for a by (simp add: mask_keys_keys mask_keys_idem)
  from ws consider (none) "map_of kvs ''invoice_data'' = None"
    | (bool) b where "map_of kvs ''invoice_data'' = Some (JBool b)"
    | (obj) a where "map_of kvs ''invoice_data'' = Some (JObj a)"
    by (auto simp: well_shaped_def field_of_def split: option.splits json.splits)
  then show ?thesis
  proof cases
    case none
    then have "''invoice_data'' \<notin> fst ` set kvs" by (simp add: map_of_None_keys)
    then have "shred_modified invoice_modified le = Inr le"
      using data by (simp add: shred_modified_def parsed_data_def invoice_modified_def)
    then show ?thesis by simp
  next
    case bool
    then have "shred_modified invoice_modified le = Inr le"
      using data map_of_data_in [OF bool]
      by (simp add: shred_modified_def parsed_data_def invoice_modified_def)
    then show ?thesis by simp
  next
    case obj
    let ?d' = "JObj (dict_set kvs ''invoice_data'' (JObj (?h a)))"
    have 1: "shred_modified invoice_modified le = Inr (save_shredded le ?d')"
      using data obj map_of_data_in [OF obj]
      by (simp add: shred_modified_def parsed_data_def invoice_modified_def invoice_fields_obj)
    have "invoice_modified ?d' = Inr (Some ?d')"
      by (simp add: invoice_modified_def invoice_fields_obj map_of_dict_set hh dict_set_twice
            map_of_data_in [of _ _ "JObj (?h a)"])
    then have 2: "shred_modified invoice_modified (save_shredded le ?d') = Inr (save_shredded le ?d')"
      by (simp add: shred_modified_def parsed_data_def save_shredded_def)
    show ?thesis using 1 2 by simp
  qed
qed

lemma shred_log_fields_twice:
  assumes data: "le_data le = Some (JObj kvs)"
  shows "\<exists>l1. shred_log_fields le bl wl = Inr l1 \<and> shred_log_fields l1 bl wl = Inr l1"
proof -
  let ?mask = "\<lambda>d. (case wl of Some (w # ws) \<Rightarrow> mask_whitelist (w # ws) d
                     | _ \<Rightarrow> (case bl of Some (b # bs) \<Rightarrow> mask_blacklist (b # bs) d | _ \<Rightarrow> Inr d))"
  have "\<exists>g. (\<forall>a. ?mask (JObj a) = Inr (JObj (g a))) \<and> (\<forall>a. g (g a) = g a)"
  proof (cases "\<exists>w ws. wl = Some (w # ws)")
    case True
    then obtain w ws where wl: "wl = Some (w # ws)" by blast
    let ?g = "\<lambda>a. mask_keys (\<lambda>k v. k \<notin> set (w # ws)) (map fst a) a"
    have a: "\<forall>a. ?mask (JObj a) = Inr (JObj (?g a))" using wl by (simp add: mask_whitelist_obj)
    have b: "\<forall>a. ?g (?g a) = ?g a" by (simp add: mask_keys_keys mask_keys_idem)
    show ?thesis by (rule exI [where x = ?g], rule conjI [OF a b])
  next
    case nowl: False
    show ?thesis
    proof (cases "\<exists>b bs. bl = Some (b # bs)")
      case True
      then obtain b bs where bl: "bl = Some (b # bs)" by blast
      let ?g = "mask_keys (\<lambda>k v. True) (b # bs)"
      have a: "\<forall>a. ?mask (JObj a) = Inr (JObj (?g a))" using bl nowl
        by (auto simp: mask_blacklist_obj split: option.splits list.splits)
      have b: "\<forall>a. ?g (?g a) = ?g a" by (simp add: mask_keys_idem)
      show ?thesis by (rule exI [where x = ?g], rule conjI [OF a b])
    next
      case False
      then have a: "\<forall>a. ?mask (JObj a) = Inr (JObj ((\<lambda>a. a) a))" using nowl
        by (auto split: option.splits list.splits)
      have b: "\<forall>a::(string \<times> json) list. (\<lambda>a. a) ((\<lambda>a. a) a) = (\<lambda>a. a) a" by simp
      show ?thesis by (rule exI [where x = "\<lambda>a. a"], rule conjI [OF a b])
    qed
  qed
  then obtain g where g: "\<And>a. ?mask (JObj a) = Inr (JObj (g a))" "\<And>a. g (g a) = g a" by blast
  have 1: "shred_log_fields le bl wl = Inr (save_shredded le (JObj (g kvs)))"
    using data g(1) [of kvs] by (simp add: shred_log_fields_def parsed_data_def)
  have 2: "shred_log_fields (save_shredded le (JObj (g kvs))) bl wl = Inr (save_shredded le (JObj (g kvs)))"
    using g(1) [of "g kvs"] g(2) by (simp add: shred_log_fields_def parsed_data_def save_shredded_def)
  show ?thesis using 1 2 by simp
qed

text \<open>
  C4: masking is idempotent. On an entry whose payload is a mapping, \<^verbatim>\<open>shred_log_fields\<close>
  with any blacklist and whitelist succeeds, and applying it to its own result gives that
  result again, payload and flag. The same holds for the "order modified" pass of each of
  the four shredders when the payload has the shape of the data model.
\<close>

theorem masking_idempotent:
  assumes "le_data le = Some d" and "is_obj d"
  shows "(\<exists>l1. shred_log_fields le bl wl = Inr l1 \<and> shred_log_fields l1 bl wl = Inr l1)
       \<and> (well_shaped d \<longrightarrow>
            (\<exists>l1. shred_modified email_modified le = Inr l1
                 \<and> shred_modified email_modified l1 = Inr l1)
          \<and> (\<exists>l1. shred_modified name_modified le = Inr l1
                 \<and> shred_modified name_modified l1 = Inr l1)
          \<and> (\<exists>l1. shred_modified invoice_modified le = Inr l1
                 \<and> shred_modified invoice_modified l1 = Inr l1)
          \<and> (\<exists>l1. shred_modified qa_modified le = Inr l1
                 \<and> shred_modified qa_modified l1 = Inr l1))"
proof -
  from assms(2) obtain kvs where d: "d = JObj kvs" by (cases d) simp_all
  note data = assms(1) [unfolded d]
  have prim: "\<exists>l1. shred_log_fields le bl wl = Inr l1 \<and> shred_log_fields l1 bl wl = Inr l1"
    by (rule shred_log_fields_twice [OF data])
  have pass: "(\<exists>l1. shred_modified email_modified le = Inr l1
                 \<and> shred_modified email_modified l1 = Inr l1)
          \<and> (\<exists>l1. shred_modified name_modified le = Inr l1
                 \<and> shred_modified name_modified l1 = Inr l1)
          \<and> (\<exists>l1. shred_modified invoice_modified le = Inr l1
                 \<and> shred_modified invoice_modified l1 = Inr l1)
          \<and> (\<exists>l1. shred_modified qa_modified le = Inr l1
                 \<and> shred_modified qa_modified l1 = Inr l1)" if ws: "well_shaped (JObj kvs)"
  proof (intro conjI)
    show "\<exists>l1. shred_modified email_modified le = Inr l1 \<and> shred_modified email_modified l1 = Inr l1"
      by (rule shred_modified_twice [OF data ws email_modified_shaped]) (simp_all add: mask_keys_idem)
    show "\<exists>l1. shred_modified name_modified le = Inr l1 \<and> shred_modified name_modified l1 = Inr l1"
      by (rule shred_modified_twice [OF data ws name_modified_shaped]) (simp_all add: mask_keys_idem)
    show "\<exists>l1. shred_modified invoice_modified le = Inr l1
                \<and> shred_modified invoice_modified l1 = Inr l1"
      by (rule invoice_modified_twice [OF data ws])
    show "\<exists>l1. shred_modified qa_modified le = Inr l1 \<and> shred_modified qa_modified l1 = Inr l1"
      by (rule shred_modified_twice [OF data ws qa_modified_shaped])
         (simp_all add: mask_keys_idem mask_keys_keys)
  qed
  show ?thesis using prim pass unfolding d by blast
qed

theorem masking_idempotent_witness:
  "le_data le2 = Some modified_payload \<and> well_shaped modified_payload
   \<and> (\<exists>l1. shred_log_fields le2 (Some [''data'']) None = Inr l1
           \<and> shred_log_fields l1 (Some [''data'']) None = Inr l1)
   \<and> (\<exists>l1. shred_modified qa_modified le2 = Inr l1 \<and> shred_modified qa_modified l1 = Inr l1)"
proof -
  have h1: "le_data le2 = Some modified_payload" by (simp add: le2_def)
  have h2: "well_shaped modified_payload"
    by (simp add: well_shaped_def modified_payload_def payload_with_def field_of_def)
  have h3: "is_obj modified_payload" by (simp add: modified_payload_def payload_with_def)
  from masking_idempotent [OF h1 h3, of "Some [''data'']" None]
  show ?thesis using h1 h2 by blast
qed


lemma same_fields_refl: "same_fields_except owned j j"
  by (simp add: same_fields_except_def)

lemma same_fields_dict_set:
  "map_of kvs k = Some x \<Longrightarrow> same_fields_except (\<lambda>k'. k' = k) (JObj kvs) (JObj (dict_set kvs k v))"
  by (simp add: same_fields_except_def field_of_def dict_set_keys_Some map_of_dict_set)

lemma same_fields_mask_keys:
  "(\<And>k v. k \<in> set ks \<Longrightarrow> P k v \<Longrightarrow> owned k) \<Longrightarrow>
   same_fields_except owned (JObj kvs) (JObj (mask_keys P ks kvs))"
proof -
  assume own: "\<And>k v. k \<in> set ks \<Longrightarrow> P k v \<Longrightarrow> owned k"
  have "map_of (mask_keys P ks kvs) k = map_of kvs k" if "\<not> owned k" for k
    using that own [of k] by (cases "map_of kvs k") (auto simp: map_of_mask_keys)
  then show ?thesis by (simp add: same_fields_except_def field_of_def mask_keys_keys)
qed

lemma mask_if_present_frame:
  assumes "mask_if_present f row = Inr row'"
  shows "same_fields_except (\<lambda>k. k = f) row row'"
proof (cases row)
  case (JObj kvs)
  then have "row' = JObj (mask_keys (\<lambda>k v. True) [f] kvs)"
    using assms by (simp add: mask_if_present_obj)
  then show ?thesis unfolding JObj by (auto intro!: same_fields_mask_keys)
next
  case (JList xs)
  then have "row' = row" using assms by (simp add: mask_if_present_def split: if_splits)
  then show ?thesis by (simp add: same_fields_refl)
next
  case (JStr s)
  then have "row' = row" using assms by (simp add: mask_if_present_def split: if_splits)
  then show ?thesis by (simp add: same_fields_refl)
qed (use assms in \<open>simp_all add: mask_if_present_def\<close>)

lemma mapM_rel: "mapM f xs = Inr ys \<Longrightarrow> list_all2 (\<lambda>x y. f x = Inr y) xs ys"
proof (induction xs arbitrary: ys)
  case Nil
  then show ?case by simp
next
  case (Cons x xs)
  then show ?case by (auto simp: bind_eq_Inr)
qed

lemma mapM_frame:
  assumes "mapM f xs = Inr ys" and "\<And>x y. f x = Inr y \<Longrightarrow> R x y"
  shows "list_all2 R xs ys"
  using mapM_rel [OF assms(1)] assms(2) by (rule list_all2_mono)

lemma email_rows_frame:
  assumes "email_rows rows = Inr rows'"
  shows "list_all2 (same_fields_except (\<lambda>k. k = ''attendee_email'')) (elems rows) (elems rows')"
proof (cases rows)
  case (JList xs)
  then obtain xs' where "mapM (mask_if_present ''attendee_email'') xs = Inr xs'" "rows' = JList xs'"
    using assms by (auto simp: email_rows_def bind_eq_Inr)
  then show ?thesis unfolding JList
    by (auto intro: mapM_frame mask_if_present_frame)
qed (use assms in \<open>auto simp: email_rows_def bind_eq_Inr\<close>)

lemma name_rows_frame:
  assumes "name_rows rows = Inr rows'"
  shows "list_all2 (same_fields_except (\<lambda>k. k = ''attendee_name'')) (elems rows) (elems rows')"
proof (cases rows)
  case (JList xs)
  then obtain xs' where "mapM (mask_if_present ''attendee_name'') xs = Inr xs'" "rows' = JList xs'"
    using assms by (auto simp: name_rows_def bind_eq_Inr)
  then show ?thesis unfolding JList
    by (auto intro: mapM_frame mask_if_present_frame)
qed (use assms in \<open>auto simp: name_rows_def bind_eq_Inr\<close>)

lemma qa_row_frame:
  assumes "qa_row row = Inr row'"
  shows "same_fields_except (\<lambda>k. k \<noteq> ''attendee_name'' \<and> k \<noteq> ''attendee_email'') row row'"
proof (cases row)
  case (JObj kvs)
  then have "row' = JObj (mask_keys (\<lambda>k v. k \<noteq> ''attendee_name'' \<and> k \<noteq> ''attendee_email'')
                            (map fst kvs) kvs)"
    using assms by (simp add: qa_row_obj)
  then show ?thesis unfolding JObj by (auto intro!: same_fields_mask_keys)
next
  case (JList ys)
  then obtain ys' where "row' = JList ys'"
    using assms by (auto simp: qa_row_def bind_eq_Inr)
  then show ?thesis unfolding JList by (simp add: same_fields_except_def field_of_def)
next
  case (JStr s)
  then have "row' = row" using assms by (simp add: qa_row_def split: if_splits)
  then show ?thesis by (simp add: same_fields_refl)
qed (use assms in \<open>simp_all add: qa_row_def\<close>)

lemma qa_rows_frame:
  assumes "qa_rows rows = Inr rows'"
  shows "list_all2 (same_fields_except (\<lambda>k. k \<noteq> ''attendee_name'' \<and> k \<noteq> ''attendee_email''))
           (elems rows) (elems rows')"
proof (cases rows)
  case (JList xs)
  then obtain xs' where "mapM qa_row xs = Inr xs'" "rows' = JList xs'"
    using assms by (auto simp: qa_rows_def bind_eq_Inr)
  then show ?thesis unfolding JList
    by (auto intro: mapM_frame qa_row_frame)
qed (use assms in \<open>auto simp: qa_rows_def bind_eq_Inr split: if_splits\<close>)

lemma data_pass_frame:
  assumes pass: "bind (py_in ''data'' d) (\<lambda>present.
       if present then
         bind (py_getitem d ''data'') (\<lambda>rows.
           bind (rowsf rows) (\<lambda>rows'.
             bind (py_setitem d ''data'' rows') (\<lambda>d'. Inr (Some d'))))
       else Inr None) = Inr (Some d')"
    and rows: "\<And>rows rows'. rowsf rows = Inr rows' \<Longrightarrow> list_all2 R (elems rows) (elems rows')"
  shows "same_fields_except (\<lambda>k. k = ''data'') d d' \<and> list_all2 R (rows_of d) (rows_of d')"
proof -
  from pass obtain rows rows' where g: "py_getitem d ''data'' = Inr rows"
    and r: "rowsf rows = Inr rows'" and s: "py_setitem d ''data'' rows' = Inr d'"
    by (auto simp: bind_eq_Inr split: if_splits)
  from g obtain kvs where d: "d = JObj kvs" by (cases d) simp_all
  from g have m: "map_of kvs ''data'' = Some rows" unfolding d by (simp split: option.splits)
  from s have d': "d' = JObj (dict_set kvs ''data'' rows')" unfolding d by simp
  have "rows_of d = elems rows" using m by (simp add: rows_of_def field_of_def d)
  moreover have "rows_of d' = elems rows'"
    by (simp add: rows_of_def field_of_def d' map_of_dict_set)
  ultimately show ?thesis using rows [OF r] same_fields_dict_set [OF m] by (simp add: d d')
qed

lemma invoice_modified_frame:
  assumes "invoice_modified d = Inr (Some d')"
  shows "same_fields_except (\<lambda>k. k = ''invoice_data'') d d'"
proof -
  from assms obtain idata where g: "py_getitem d ''invoice_data'' = Inr idata"
    by (auto simp: invoice_modified_def bind_eq_Inr split: if_splits)
  from g obtain kvs where d: "d = JObj kvs" by (cases d) simp_all
  from g have m: "map_of kvs ''invoice_data'' = Some idata" unfolding d by (simp split: option.splits)
  from assms g obtain x where "d' = JObj (dict_set kvs ''invoice_data'' x)"
    unfolding d by (cases idata) (auto simp: invoice_modified_def bind_eq_Inr split: if_splits)
  then show ?thesis using same_fields_dict_set [OF m] by (simp add: d)
qed

lemma mask_blacklist_not_obj:
  "\<not> is_obj d \<Longrightarrow> mask_blacklist fs d = Inr d' \<Longrightarrow> d' = d"
proof (induction fs)
  case Nil
  then show ?case by simp
next
  case (Cons f fs)
  from Cons.prems have "mask_blacklist fs d = Inr d'"
    by (cases d) (auto simp: bind_eq_Inr split: if_splits)
  then show ?case using Cons by simp
qed

lemma mask_blacklist_frame:
  assumes "mask_blacklist fs d = Inr d'"
  shows "same_fields_except (\<lambda>k. k \<in> set fs) d d'"
proof (cases "is_obj d")
  case True
  then obtain kvs where d: "d = JObj kvs" by (cases d) simp_all
  then have "d' = JObj (mask_keys (\<lambda>k v. True) fs kvs)" using assms by (simp add: mask_blacklist_obj)
  then show ?thesis unfolding d by (auto intro!: same_fields_mask_keys)
next
  case False
  then show ?thesis using mask_blacklist_not_obj [OF False assms] by (simp add: same_fields_refl)
qed

text \<open>
  C5: field isolation. Whenever the "order modified" pass of \<^verbatim>\<open>AttendeeNameShredder\<close> saves
  a payload, the saved payload has the same keys, the same value at every key other than
  \<^verbatim>\<open>data\<close> (so \<^verbatim>\<open>invoice_data\<close> is as it was), the same number of rows, and every row has
  the same keys and the same value at every key other than \<^verbatim>\<open>attendee_name\<close> (so
  \<^verbatim>\<open>attendee_email\<close> is as it was). Likewise \<^verbatim>\<open>EmailAddressShredder\<close> changes only
  \<^verbatim>\<open>attendee_email\<close> in rows and the blacklisted fields of the entries it blacklists,
  \<^verbatim>\<open>InvoiceAddressShredder\<close> changes only \<^verbatim>\<open>invoice_data\<close>, and \<^verbatim>\<open>QuestionAnswerShredder\<close>
  changes in rows only fields other than \<^verbatim>\<open>attendee_name\<close> and \<^verbatim>\<open>attendee_email\<close>.
\<close>

theorem field_isolation:
  "(name_modified d1 = Inr (Some d1') \<longrightarrow>
      same_fields_except (\<lambda>k. k = ''data'') d1 d1' \<and>
      list_all2 (same_fields_except (\<lambda>k. k = ''attendee_name'')) (rows_of d1) (rows_of d1'))
   \<and> (email_modified d2 = Inr (Some d2') \<longrightarrow>
      same_fields_except (\<lambda>k. k = ''data'') d2 d2' \<and>
      list_all2 (same_fields_except (\<lambda>k. k = ''attendee_email'')) (rows_of d2) (rows_of d2'))
   \<and> (mask_blacklist fs d3 = Inr d3' \<longrightarrow> same_fields_except (\<lambda>k. k \<in> set fs) d3 d3')
   \<and> (invoice_modified d4 = Inr (Some d4') \<longrightarrow>
      same_fields_except (\<lambda>k. k = ''invoice_data'') d4 d4')
   \<and> (qa_modified d5 = Inr (Some d5') \<longrightarrow>
      same_fields_except (\<lambda>k. k = ''data'') d5 d5' \<and>
      list_all2 (same_fields_except (\<lambda>k. k \<noteq> ''attendee_name'' \<and> k \<noteq> ''attendee_email''))
        (rows_of d5) (rows_of d5'))"
proof (intro conjI impI)
  assume a: "name_modified d1 = Inr (Some d1')"
  from data_pass_frame [OF a [unfolded name_modified_def] name_rows_frame]
  show "same_fields_except (\<lambda>k. k = ''data'') d1 d1'"
    and "list_all2 (same_fields_except (\<lambda>k. k = ''attendee_name'')) (rows_of d1) (rows_of d1')"
    by simp_all
next
  assume a: "email_modified d2 = Inr (Some d2')"
  from data_pass_frame [OF a [unfolded email_modified_def] email_rows_frame]
  show "same_fields_except (\<lambda>k. k = ''data'') d2 d2'"
    and "list_all2 (same_fields_except (\<lambda>k. k = ''attendee_email'')) (rows_of d2) (rows_of d2')"
    by simp_all
next
  assume "mask_blacklist fs d3 = Inr d3'"
  then show "same_fields_except (\<lambda>k. k \<in> set fs) d3 d3'" by (rule mask_blacklist_frame)
next
  assume "invoice_modified d4 = Inr (Some d4')"
  then show "same_fields_except (\<lambda>k. k = ''invoice_data'') d4 d4'" by (rule invoice_modified_frame)
next
  assume a: "qa_modified d5 = Inr (Some d5')"
  from data_pass_frame [OF a [unfolded qa_modified_def] qa_rows_frame]
  show "same_fields_except (\<lambda>k. k = ''data'') d5 d5'"
    and "list_all2 (same_fields_except (\<lambda>k. k \<noteq> ''attendee_name'' \<and> k \<noteq> ''attendee_email''))
        (rows_of d5) (rows_of d5')"
    by simp_all
qed


theorem field_isolation_witness:
  "name_modified modified_payload
     = Inr (Some (payload_with (JStr ''Acme'') (JStr []) marker (JStr ''j@x.com'') (JStr ''vegan'')))
   \<and> email_modified modified_payload
     = Inr (Some (payload_with (JStr ''Acme'') (JStr []) (JStr ''Jane Doe'') marker (JStr ''vegan'')))
   \<and> mask_blacklist [''recipient'', ''message'']
        (JObj [(''recipient'', JStr ''j@x.com''), (''subject'', JStr ''Hi'')])
     = Inr (JObj [(''recipient'', marker), (''subject'', JStr ''Hi'')])
   \<and> invoice_modified modified_payload
     = Inr (Some (payload_with marker (JStr []) (JStr ''Jane Doe'') (JStr ''j@x.com'') (JStr ''vegan'')))
   \<and> qa_modified modified_payload
     = Inr (Some (payload_with (JStr ''Acme'') (JStr []) (JStr ''Jane Doe'') (JStr ''j@x.com'') marker))
   \<and> field_of (payload_with (JStr ''Acme'') (JStr []) marker (JStr ''j@x.com'') (JStr ''vegan''))
         ''invoice_data''
     = field_of modified_payload ''invoice_data''"
proof -
  have h1: "name_modified modified_payload
     = Inr (Some (payload_with (JStr ''Acme'') (JStr []) marker (JStr ''j@x.com'') (JStr ''vegan'')))"
    by (simp add: name_modified_def name_rows_def mask_if_present_def modified_payload_def
          payload_with_def)
  have h2: "email_modified modified_payload
     = Inr (Some (payload_with (JStr ''Acme'') (JStr []) (JStr ''Jane Doe'') marker (JStr ''vegan'')))"
    by (simp add: email_modified_def email_rows_def mask_if_present_def modified_payload_def
          payload_with_def)
  have h3: "mask_blacklist [''recipient'', ''message'']
        (JObj [(''recipient'', JStr ''j@x.com''), (''subject'', JStr ''Hi'')])
     = Inr (JObj [(''recipient'', marker), (''subject'', JStr ''Hi'')])"
    by simp
  have h4: "invoice_modified modified_payload
     = Inr (Some (payload_with marker (JStr []) (JStr ''Jane Doe'') (JStr ''j@x.com'') (JStr ''vegan'')))"
    by (simp add: invoice_modified_def invoice_fields_def modified_payload_def payload_with_def)
  have h5: "qa_modified modified_payload
     = Inr (Some (payload_with (JStr ''Acme'') (JStr []) (JStr ''Jane Doe'') (JStr ''j@x.com'') marker))"
    by (simp add: qa_modified_def qa_rows_def qa_row_def modified_payload_def payload_with_def)
  from field_isolation [of modified_payload _ modified_payload _ "[''recipient'', ''message'']"
      "JObj [(''recipient'', JStr ''j@x.com''), (''subject'', JStr ''Hi'')]" _ modified_payload _
      modified_payload]
  show ?thesis using h1 h2 h3 h4 h5 by (simp add: same_fields_except_def)
qed

section \<open>The destructive pass\<close>


lemma shred_log_fields_props:
  assumes "shred_log_fields le bl wl = Inr le'"
  shows "le_shredded le' \<and> le_event le' = le_event le \<and> le_action_type le' = le_action_type le"
  using assms by (auto simp: shred_log_fields_def bind_eq_Inr save_shredded_def)

lemma shred_modified_cases:
  assumes "shred_modified m le = Inr le'"
  shows "\<exists>d. le_data le = Some d \<and>
           ((m d = Inr None \<and> le' = le) \<or> (\<exists>d'. m d = Inr (Some d') \<and> le' = save_shredded le d'))"
  using assms
  by (auto simp: shred_modified_def parsed_data_def bind_eq_Inr split: option.splits)

lemma data_pass_result:
  assumes "bind (py_in ''data'' d) (\<lambda>present.
       if present then
         bind (py_getitem d ''data'') (\<lambda>rows.
           bind (rowsf rows) (\<lambda>rows'.
             bind (py_setitem d ''data'' rows') (\<lambda>d'. Inr (Some d'))))
       else Inr None) = Inr r"
  shows "(r \<noteq> None) = (field_of d ''data'' \<noteq> None)"
proof (cases d)
  case (JObj kvs)
  then show ?thesis using assms
    by (auto simp: bind_eq_Inr field_of_def map_of_None_keys split: if_splits option.splits)
next
  case (JList xs)
  then show ?thesis using assms by (auto simp: bind_eq_Inr field_of_def split: if_splits)
next
  case (JStr s)
  then show ?thesis using assms by (auto simp: bind_eq_Inr field_of_def split: if_splits)
qed (use assms in \<open>simp_all\<close>)

lemma invoice_modified_result:
  assumes "invoice_modified d = Inr r"
  shows "(r \<noteq> None) =
         (case field_of d ''invoice_data'' of None \<Rightarrow> False | Some (JBool b) \<Rightarrow> False | Some _ \<Rightarrow> True)"
proof (cases d)
  case (JObj kvs)
  show ?thesis
  proof (cases "map_of kvs ''invoice_data''")
    case None
    then have "''invoice_data'' \<notin> fst ` set kvs" by (simp add: map_of_None_keys)
    then show ?thesis using assms None JObj by (simp add: invoice_modified_def field_of_def)
  next
    case (Some x)
    then show ?thesis using assms JObj map_of_data_in [OF Some]
      by (cases x) (auto simp: invoice_modified_def field_of_def bind_eq_Inr)
  qed
next
  case (JList xs)
  then show ?thesis using assms
    by (auto simp: invoice_modified_def bind_eq_Inr field_of_def split: if_splits)
next
  case (JStr s)
  then show ?thesis using assms
    by (auto simp: invoice_modified_def bind_eq_Inr field_of_def split: if_splits)
qed (use assms in \<open>simp_all add: invoice_modified_def\<close>)

text \<open>An "order modified" loop over one entry.\<close>

lemma modified_step:
  assumes step: "(if modified_entry ev l then shred_modified m l else Inr l) = Inr l'"
    and res: "\<And>d r. m d = Inr r \<Longrightarrow> (r \<noteq> None) = C d"
  shows "if le_event l = e_id ev \<and> le_action_type l = ''pretix.event.order.modified''
            \<and> (case le_data l of Some d \<Rightarrow> C d | None \<Rightarrow> False)
         then le_shredded l' else l' = l"
proof (cases "modified_entry ev l")
  case False
  then show ?thesis using step by (auto simp: modified_entry_def)
next
  case True
  with step have "shred_modified m l = Inr l'" by simp
  from shred_modified_cases [OF this] obtain d where d: "le_data l = Some d"
    and c: "(m d = Inr None \<and> l' = l) \<or> (\<exists>d'. m d = Inr (Some d') \<and> l' = save_shredded l d')"
    by blast
  from c show ?thesis
  proof
    assume "m d = Inr None \<and> l' = l"
    then show ?thesis using res [of d None] d by simp
  next
    assume "\<exists>d'. m d = Inr (Some d') \<and> l' = save_shredded l d'"
    then obtain d' where "m d = Inr (Some d')" "l' = save_shredded l d'" by blast
    then show ?thesis using res [of d "Some d'"] d True
      by (simp add: save_shredded_def modified_entry_def)
  qed
qed

lemma shred_logs_rel:
  assumes "shred_logs sel f s = Inr s'"
  shows "list_all2 (\<lambda>l l'. (if sel l then f l else Inr l) = Inr l') (logentries s) (logentries s')
       \<and> orders s' = orders s \<and> positions s' = positions s
       \<and> invoice_addresses s' = invoice_addresses s \<and> answers s' = answers s"
  using assms by (auto simp: shred_logs_def bind_eq_Inr dest: mapM_rel)

lemma modified_pass:
  assumes "shred_logs (modified_entry ev) (shred_modified m) s = Inr s'"
    and res: "\<And>d r. m d = Inr r \<Longrightarrow> (r \<noteq> None) = C d"
  shows "list_all2 (\<lambda>l l'. if le_event l = e_id ev \<and> le_action_type l = ''pretix.event.order.modified''
            \<and> (case le_data l of Some d \<Rightarrow> C d | None \<Rightarrow> False)
         then le_shredded l' else l' = l) (logentries s) (logentries s')"
proof -
  from shred_logs_rel [OF assms(1)]
  have "list_all2 (\<lambda>l l'. (if modified_entry ev l then shred_modified m l else Inr l) = Inr l')
          (logentries s) (logentries s')" by simp
  then show ?thesis
    by (rule list_all2_mono) (rule modified_step [OF _ res])
qed



lemma order_in_event_orders:
  "orders s' = orders s \<Longrightarrow> order_in_event s' ev i = order_in_event s ev i"
  by (simp add: order_in_event_def order_by_id_def)

lemma position_in_event_tables:
  "orders s' = orders s \<Longrightarrow> positions s' = positions s \<Longrightarrow>
   position_in_event s' ev i = position_in_event s ev i"
  by (simp add: position_in_event_def order_in_event_orders [of s' s] split: option.splits)

lemma find_map_id:
  "(\<And>r. o_id (g r) = o_id r) \<Longrightarrow>
   find (\<lambda>r. o_id r = i) (map g rs) = map_option g (find (\<lambda>r. o_id r = i) rs)"
  by (induction rs) simp_all

lemma order_in_event_email:
  assumes "orders s' = map (\<lambda>r. if o_event r = e_id ev \<and> o_email r \<noteq> None
                            then r\<lparr>o_email := None\<rparr> else r) (orders s)"
  shows "order_in_event s' ev i = order_in_event s ev i"
proof -
  let ?g = "\<lambda>r. if o_event r = e_id ev \<and> o_email r \<noteq> None then r\<lparr>o_email := None\<rparr> else r"
  have "find (\<lambda>r. o_id r = i) (map ?g (orders s)) = map_option ?g (find (\<lambda>r. o_id r = i) (orders s))"
    by (rule find_map_id) simp
  then show ?thesis using assms
    by (cases "find (\<lambda>r. o_id r = i) (orders s)") (simp_all add: order_in_event_def order_by_id_def)
qed

lemma name_shred_data_post:
  assumes "name_shred_data s ev = Inr s'"
  shows "(\<forall>p \<in> set (positions s'). order_in_event s' ev (op_order p) \<longrightarrow> op_attendee_name p = None)
       \<and> list_all2 (\<lambda>l l'. if rewrites_rows ev l then le_shredded l' else l' = l)
           (logentries s) (logentries s')"
proof -
  let ?s1 = "s\<lparr>positions :=
                  map (\<lambda>p. if order_in_event s ev (op_order p) \<and> op_attendee_name p \<noteq> None
                            then p\<lparr>op_attendee_name := None\<rparr> else p) (positions s)\<rparr>"
  from assms have run: "shred_logs (modified_entry ev) (shred_modified name_modified) ?s1 = Inr s'"
    by (simp add: name_shred_data_def Let_def)
  from shred_logs_rel [OF run] have tabs: "orders s' = orders s" "positions s' = positions ?s1"
    by simp_all
  have res: "\<And>d r. name_modified d = Inr r \<Longrightarrow> (r \<noteq> None) = (field_of d ''data'' \<noteq> None)"
    unfolding name_modified_def by (rule data_pass_result)
  have logs: "list_all2 (\<lambda>l l'. if rewrites_rows ev l then le_shredded l' else l' = l)
           (logentries s) (logentries s')"
    using modified_pass [OF run res] by (simp add: rewrites_rows_def has_key_def)
  have "\<forall>p \<in> set (positions s'). order_in_event s' ev (op_order p) \<longrightarrow> op_attendee_name p = None"
    using tabs by (auto simp: order_in_event_orders [OF tabs(1)])
  then show ?thesis using logs by simp
qed

lemma invoice_shred_data_post:
  assumes "invoice_shred_data s ev = Inr s'"
  shows "(\<forall>ia \<in> set (invoice_addresses s'). \<not> order_in_event s' ev (ia_order ia))
       \<and> list_all2 (\<lambda>l l'. if invoice_rewrites ev l then le_shredded l' else l' = l)
           (logentries s) (logentries s')"
proof -
  let ?s1 = "s\<lparr>invoice_addresses :=
                  filter (\<lambda>ia. \<not> order_in_event s ev (ia_order ia)) (invoice_addresses s)\<rparr>"
  from assms have run: "shred_logs (modified_entry ev) (shred_modified invoice_modified) ?s1 = Inr s'"
    by (simp add: invoice_shred_data_def Let_def)
  from shred_logs_rel [OF run] have tabs: "orders s' = orders s"
    "invoice_addresses s' = invoice_addresses ?s1"
    by simp_all
  have logs: "list_all2 (\<lambda>l l'. if invoice_rewrites ev l then le_shredded l' else l' = l)
           (logentries s) (logentries s')"
    using modified_pass [OF run invoice_modified_result] by (simp add: invoice_rewrites_def)
  have "\<forall>ia \<in> set (invoice_addresses s'). \<not> order_in_event s' ev (ia_order ia)"
    using tabs by (auto simp: order_in_event_orders [OF tabs(1)])
  then show ?thesis using logs by simp
qed

lemma qa_shred_data_post:
  assumes "qa_shred_data s ev = Inr s'"
  shows "(\<forall>a \<in> set (answers s'). \<not> position_in_event s' ev (qa_orderposition a))
       \<and> list_all2 (\<lambda>l l'. if rewrites_rows ev l then le_shredded l' else l' = l)
           (logentries s) (logentries s')"
proof -
  let ?s1 = "s\<lparr>answers :=
                  filter (\<lambda>a. \<not> position_in_event s ev (qa_orderposition a)) (answers s)\<rparr>"
  from assms have run: "shred_logs (modified_entry ev) (shred_modified qa_modified) ?s1 = Inr s'"
    by (simp add: qa_shred_data_def Let_def)
  from shred_logs_rel [OF run] have tabs: "orders s' = orders s" "positions s' = positions s"
    "answers s' = answers ?s1"
    by simp_all
  have res: "\<And>d r. qa_modified d = Inr r \<Longrightarrow> (r \<noteq> None) = (field_of d ''data'' \<noteq> None)"
    unfolding qa_modified_def by (rule data_pass_result)
  have logs: "list_all2 (\<lambda>l l'. if rewrites_rows ev l then le_shredded l' else l' = l)
           (logentries s) (logentries s')"
    using modified_pass [OF run res] by (simp add: rewrites_rows_def has_key_def)
  have "\<forall>a \<in> set (answers s'). \<not> position_in_event s' ev (qa_orderposition a)"
    using tabs by (auto simp: position_in_event_tables [OF tabs(1,2)])
  then show ?thesis using logs by simp
qed


lemma email_entry:
  assumes 1: "(if le_event l = e_id ev \<and> py_substring ''order.email'' (le_action_type l)
               then shred_log_fields l (Some [''recipient'', ''message'']) None else Inr l) = Inr l1"
    and 2: "(if le_event l1 = e_id ev \<and> le_action_type l1 = ''pretix.event.order.contact.changed''
               then shred_log_fields l1 (Some [''old_email'', ''new_email'']) None else Inr l1) = Inr l2"
    and 3: "if rewrites_rows ev l2 then le_shredded l3 else l3 = l2"
  shows "if email_rewrites ev l then le_shredded l3 else l3 = l"
proof (cases "le_event l = e_id ev \<and> py_substring ''order.email'' (le_action_type l)")
  case True
  with 1 have "shred_log_fields l (Some [''recipient'', ''message'']) None = Inr l1" by simp
  from shred_log_fields_props [OF this] have l1: "le_shredded l1" by simp
  have "le_shredded l2"
  proof (cases "le_event l1 = e_id ev \<and> le_action_type l1 = ''pretix.event.order.contact.changed''")
    case True
    with 2 have "shred_log_fields l1 (Some [''old_email'', ''new_email'']) None = Inr l2" by simp
    from shred_log_fields_props [OF this] show ?thesis by simp
  next
    case False
    with 2 l1 show ?thesis by simp
  qed
  then have "le_shredded l3" using 3 by (simp split: if_splits)
  then show ?thesis using True by (simp add: email_rewrites_def)
next
  case no1: False
  with 1 have l1: "l1 = l" by simp
  show ?thesis
  proof (cases "le_event l = e_id ev \<and> le_action_type l = ''pretix.event.order.contact.changed''")
    case True
    with 2 l1 have "shred_log_fields l (Some [''old_email'', ''new_email'']) None = Inr l2" by simp
    from shred_log_fields_props [OF this] have "le_shredded l2" by simp
    then have "le_shredded l3" using 3 by (simp split: if_splits)
    then show ?thesis using True by (simp add: email_rewrites_def)
  next
    case False
    with 2 l1 have "l2 = l" by simp
    then show ?thesis using 3 no1 False by (auto simp: email_rewrites_def)
  qed
qed

lemma email_shred_data_post:
  assumes "email_shred_data s ev = Inr s'"
  shows "(\<forall>r \<in> set (orders s'). o_event r = e_id ev \<longrightarrow> o_email r = None)
       \<and> (\<forall>p \<in> set (positions s'). order_in_event s' ev (op_order p) \<longrightarrow> op_attendee_email p = None)
       \<and> list_all2 (\<lambda>l l'. if email_rewrites ev l then le_shredded l' else l' = l)
           (logentries s) (logentries s')"
proof -
  let ?ps = "map (\<lambda>p. if order_in_event s ev (op_order p) \<and> op_attendee_email p \<noteq> None
                       then p\<lparr>op_attendee_email := None\<rparr> else p) (positions s)"
  let ?os = "map (\<lambda>r. if o_event r = e_id ev \<and> o_email r \<noteq> None
                       then r\<lparr>o_email := None\<rparr> else r) (orders s)"
  let ?s2 = "s\<lparr>positions := ?ps, orders := ?os\<rparr>"
  from assms obtain s3 s4 where
    p1: "shred_logs (\<lambda>le. le_event le = e_id ev \<and> py_substring ''order.email'' (le_action_type le))
           (\<lambda>le. shred_log_fields le (Some [''recipient'', ''message'']) None) ?s2 = Inr s3"
    and p2: "shred_logs (\<lambda>le. le_event le = e_id ev
                              \<and> le_action_type le = ''pretix.event.order.contact.changed'')
           (\<lambda>le. shred_log_fields le (Some [''old_email'', ''new_email'']) None) s3 = Inr s4"
    and p3: "shred_logs (modified_entry ev) (shred_modified email_modified) s4 = Inr s'"
    by (auto simp: email_shred_data_def Let_def bind_eq_Inr)
  have res: "\<And>d r. email_modified d = Inr r \<Longrightarrow> (r \<noteq> None) = (field_of d ''data'' \<noteq> None)"
    unfolding email_modified_def by (rule data_pass_result)
  have r3: "list_all2 (\<lambda>l l'. if rewrites_rows ev l then le_shredded l' else l' = l)
              (logentries s4) (logentries s')"
    using modified_pass [OF p3 res] by (simp add: rewrites_rows_def has_key_def)
  from shred_logs_rel [OF p1] shred_logs_rel [OF p2] shred_logs_rel [OF p3]
  have tabs: "orders s' = ?os" "positions s' = ?ps" by simp_all
  from shred_logs_rel [OF p1] have r1: "list_all2 (\<lambda>l l1.
      (if le_event l = e_id ev \<and> py_substring ''order.email'' (le_action_type l)
       then shred_log_fields l (Some [''recipient'', ''message'']) None else Inr l) = Inr l1)
      (logentries s) (logentries s3)" by simp
  from shred_logs_rel [OF p2] have r2: "list_all2 (\<lambda>l1 l2.
      (if le_event l1 = e_id ev \<and> le_action_type l1 = ''pretix.event.order.contact.changed''
       then shred_log_fields l1 (Some [''old_email'', ''new_email'']) None else Inr l1) = Inr l2)
      (logentries s3) (logentries s4)" by simp
  have r12: "list_all2 (\<lambda>l l2. \<exists>l1.
      (if le_event l = e_id ev \<and> py_substring ''order.email'' (le_action_type l)
       then shred_log_fields l (Some [''recipient'', ''message'']) None else Inr l) = Inr l1 \<and>
      (if le_event l1 = e_id ev \<and> le_action_type l1 = ''pretix.event.order.contact.changed''
       then shred_log_fields l1 (Some [''old_email'', ''new_email'']) None else Inr l1) = Inr l2)
      (logentries s) (logentries s4)"
    by (rule list_all2_trans [OF _ r1 r2]) blast
  have logs: "list_all2 (\<lambda>l l'. if email_rewrites ev l then le_shredded l' else l' = l)
           (logentries s) (logentries s')"
    by (rule list_all2_trans [OF _ r12 r3]) (blast intro: email_entry)
  have o: "\<forall>r \<in> set (orders s'). o_event r = e_id ev \<longrightarrow> o_email r = None"
    unfolding tabs by auto
  have p: "\<forall>p \<in> set (positions s'). order_in_event s' ev (op_order p) \<longrightarrow> op_attendee_email p = None"
    unfolding tabs(2) by (auto simp: order_in_event_email [OF tabs(1)])
  show ?thesis using o p logs by simp
qed



text \<open>
  C2, as stated, fails: an "order modified" entry whose \<^verbatim>\<open>invoice_data\<close> is a boolean is
  scanned by the loop of \<^verbatim>\<open>InvoiceAddressShredder\<close> and is not saved, so its flag stays as
  it was. The same happens in the other three shredders to an entry without \<^verbatim>\<open>data\<close>.
\<close>

theorem scanned_not_shredded_counterexample:
  "invoice_shred_data db3 event1 = Inr db3 \<and> logentries db3 = [le3]
   \<and> modified_entry event1 le3 \<and> \<not> le_shredded le3"
  by (simp add: invoice_shred_data_def db3_def event1_def le3_def shred_logs_def modified_entry_def
        shred_modified_def parsed_data_def invoice_modified_def)

text \<open>
  C2 (amended): when \<^verbatim>\<open>shred_data\<close> of any of the four shredders completes, the targeted
  fields of the event's records are null (\<^verbatim>\<open>order.email\<close>, \<^verbatim>\<open>attendee_email\<close>,
  \<^verbatim>\<open>attendee_name\<close>) or the targeted rows of the event are gone (invoice addresses, question
  answers), and every entry that the shredder rewrites is flagged: the entries handed to
  \<^verbatim>\<open>shred_log_fields\<close>, and the "order modified" entries of the event with non-empty data
  whose payload has the key \<^verbatim>\<open>data\<close> (for \<^verbatim>\<open>InvoiceAddressShredder\<close>: an \<^verbatim>\<open>invoice_data\<close> that
  is not a boolean). Every other entry is exactly as it was.
\<close>

theorem shred_data_destroys:
  "(email_shred_data s ev = Inr s1 \<longrightarrow>
      (\<forall>r \<in> set (orders s1). o_event r = e_id ev \<longrightarrow> o_email r = None)
    \<and> (\<forall>p \<in> set (positions s1). order_in_event s1 ev (op_order p) \<longrightarrow> op_attendee_email p = None)
    \<and> list_all2 (\<lambda>l l'. if email_rewrites ev l then le_shredded l' else l' = l)
         (logentries s) (logentries s1))
   \<and> (name_shred_data s ev = Inr s2 \<longrightarrow>
      (\<forall>p \<in> set (positions s2). order_in_event s2 ev (op_order p) \<longrightarrow> op_attendee_name p = None)
    \<and> list_all2 (\<lambda>l l'. if rewrites_rows ev l then le_shredded l' else l' = l)
         (logentries s) (logentries s2))
   \<and> (invoice_shred_data s ev = Inr s3 \<longrightarrow>
      (\<forall>ia \<in> set (invoice_addresses s3). \<not> order_in_event s3 ev (ia_order ia))
    \<and> list_all2 (\<lambda>l l'. if invoice_rewrites ev l then le_shredded l' else l' = l)
         (logentries s) (logentries s3))
   \<and> (qa_shred_data s ev = Inr s4 \<longrightarrow>
      (\<forall>a \<in> set (answers s4). \<not> position_in_event s4 ev (qa_orderposition a))
    \<and> list_all2 (\<lambda>l l'. if rewrites_rows ev l then le_shredded l' else l' = l)
         (logentries s) (logentries s4))"
  using email_shred_data_post [of s ev s1] name_shred_data_post [of s ev s2]
    invoice_shred_data_post [of s ev s3] qa_shred_data_post [of s ev s4]
  by blast

theorem shred_data_destroys_witness:
  "email_shred_data db1 event1
     = Inr (db1\<lparr>orders := [\<lparr>o_id = 7, o_event = 1, o_code = ''ABC12'', o_email = None\<rparr>],
                positions := [\<lparr>op_id = 3, op_order = 7, op_positionid = 1,
                                op_attendee_email = None, op_attendee_name = Some ''Jane Doe''\<rparr>],
                logentries :=
                  [save_shredded le1 (JObj [(''recipient'', marker), (''subject'', JStr ''Hi'')]),
                   save_shredded le2 (payload_with (JStr ''Acme'') (JStr []) (JStr ''Jane Doe'')
                                        marker (JStr ''vegan''))]\<rparr>)
   \<and> name_shred_data db1 event1
     = Inr (db1\<lparr>positions := [\<lparr>op_id = 3, op_order = 7, op_positionid = 1,
                                op_attendee_email = Some ''j@x.com'', op_attendee_name = None\<rparr>],
                logentries :=
                  [le1, save_shredded le2 (payload_with (JStr ''Acme'') (JStr []) marker
                                             (JStr ''j@x.com'') (JStr ''vegan''))]\<rparr>)
   \<and> invoice_shred_data db1 event1
     = Inr (db1\<lparr>invoice_addresses := [],
                logentries :=
                  [le1, save_shredded le2 (payload_with marker (JStr []) (JStr ''Jane Doe'')
                                             (JStr ''j@x.com'') (JStr ''vegan''))]\<rparr>)
   \<and> qa_shred_data db1 event1
     = Inr (db1\<lparr>answers := [],
                logentries :=
                  [le1, save_shredded le2 (payload_with (JStr ''Acme'') (JStr []) (JStr ''Jane Doe'')
                                             (JStr ''j@x.com'') marker)]\<rparr>)"
proof -
  have h1: "email_shred_data db1 event1
     = Inr (db1\<lparr>orders := [\<lparr>o_id = 7, o_event = 1, o_code = ''ABC12'', o_email = None\<rparr>],
                positions := [\<lparr>op_id = 3, op_order = 7, op_positionid = 1,
                                op_attendee_email = None, op_attendee_name = Some ''Jane Doe''\<rparr>],
                logentries :=
                  [save_shredded le1 (JObj [(''recipient'', marker), (''subject'', JStr ''Hi'')]),
                   save_shredded le2 (payload_with (JStr ''Acme'') (JStr []) (JStr ''Jane Doe'')
                                        marker (JStr ''vegan''))]\<rparr>)"
    by (simp add: email_shred_data_def db1_def event1_def le1_def le2_def shred_logs_def
          modified_entry_def shred_modified_def parsed_data_def shred_log_fields_def
          order_in_event_def order_by_id_def save_shredded_def
          email_modified_def email_rows_def mask_if_present_def modified_payload_def payload_with_def)
  have h2: "name_shred_data db1 event1
     = Inr (db1\<lparr>positions := [\<lparr>op_id = 3, op_order = 7, op_positionid = 1,
                                op_attendee_email = Some ''j@x.com'', op_attendee_name = None\<rparr>],
                logentries :=
                  [le1, save_shredded le2 (payload_with (JStr ''Acme'') (JStr []) marker
                                             (JStr ''j@x.com'') (JStr ''vegan''))]\<rparr>)"
    by (simp add: name_shred_data_def db1_def event1_def le1_def le2_def shred_logs_def
          modified_entry_def shred_modified_def parsed_data_def
          order_in_event_def order_by_id_def save_shredded_def
          name_modified_def name_rows_def mask_if_present_def modified_payload_def payload_with_def)
  have h3: "invoice_shred_data db1 event1
     = Inr (db1\<lparr>invoice_addresses := [],
                logentries :=
                  [le1, save_shredded le2 (payload_with marker (JStr []) (JStr ''Jane Doe'')
                                             (JStr ''j@x.com'') (JStr ''vegan''))]\<rparr>)"
    by (simp add: invoice_shred_data_def db1_def event1_def le1_def le2_def shred_logs_def
          modified_entry_def shred_modified_def parsed_data_def
          order_in_event_def order_by_id_def save_shredded_def
          invoice_modified_def invoice_fields_def modified_payload_def payload_with_def)
  have h4: "qa_shred_data db1 event1
     = Inr (db1\<lparr>answers := [],
                logentries :=
                  [le1, save_shredded le2 (payload_with (JStr ''Acme'') (JStr []) (JStr ''Jane Doe'')
                                             (JStr ''j@x.com'') marker)]\<rparr>)"
    by (simp add: qa_shred_data_def db1_def event1_def le1_def le2_def shred_logs_def
          modified_entry_def shred_modified_def parsed_data_def
          position_in_event_def order_in_event_def order_by_id_def save_shredded_def
          qa_modified_def qa_rows_def qa_row_def modified_payload_def payload_with_def)
  from shred_data_destroys [of db1 event1]
  show ?thesis using h1 h2 h3 h4 by blast
qed

section \<open>What the shredders store\<close>













section \<open>Exports\<close>

text \<open>
  C9: \<^verbatim>\<open>generate_files\<close> of every shredder leaves the state as it found it (all records, all
  log entries with their payloads and flags) and gives a finite list of files: two for
  \<^verbatim>\<open>EmailAddressShredder\<close>, one for each of the others.
\<close>

theorem generate_files_read_only:
  "snd (email_generate_files dumps s ev) = s \<and> length (fst (email_generate_files dumps s ev)) = 2
   \<and> snd (name_generate_files dumps s ev) = s \<and> length (fst (name_generate_files dumps s ev)) = 1
   \<and> snd (invoice_generate_files dumps ser_ia s ev) = s
   \<and> length (fst (invoice_generate_files dumps ser_ia s ev)) = 1
   \<and> snd (qa_generate_files dumps ser_qa s ev) = s
   \<and> length (fst (qa_generate_files dumps ser_qa s ev)) = 1"
  by (simp add: email_generate_files_def name_generate_files_def invoice_generate_files_def
        qa_generate_files_def)


section \<open>Outside the shape of the data model\<close>

text \<open>
  The shape hypotheses above are needed. An \<^verbatim>\<open>invoice_data\<close> that is \<^verbatim>\<open>null\<close> is not
  iterable. A row that is the list \<^verbatim>\<open>[0]\<close> is indexed by its own element in the first pass of
  \<^verbatim>\<open>QuestionAnswerShredder\<close> and becomes a list holding the marker, which is not an index in
  the second pass.
\<close>

lemma invoice_data_null_raises:
  "invoice_modified (JObj [(''invoice_data'', JNull)]) = Inl TypeError"
  by (simp add: invoice_modified_def invoice_fields_def)

lemma list_row_second_pass_raises:
  "qa_modified (JObj [(''data'', JList [JList [JNum 0]])])
     = Inr (Some (JObj [(''data'', JList [JList [marker]])]))
   \<and> qa_modified (JObj [(''data'', JList [JList [marker]])]) = Inl TypeError"
  by (simp add: qa_modified_def qa_rows_def qa_row_def marker_def)

end
